theory Spec2Isabelle
  imports Main "HOL-Library.Monad_Syntax"
begin

section \<open>Data model of \<open>chessV5_GUI.cpp\<close>\<close>

text \<open>
  The enums, the \<open>Piece\<close> and \<open>Move\<close> structs, the nested \<open>GameState\<close> snapshot and the
  \<open>ChessGame\<close> class. The 8x8 array \<open>board[r][c]\<close> is a store from (row, column) to
  pieces; the source only ever indexes it with rows and columns in 0..7 (reading outside
  is undefined behaviour in C++, and the model's cells outside that range are never
  written by the functions below when their arguments are in range). C++ \<open>int\<close> is
  modelled by \<open>int\<close>: the counters would need 2^31 moves to overflow.
  The \<open>unordered_map\<close> is a partial map. The doubly linked move log is the list of its
  moves in link order, with \<open>historyCurrent\<close> the index of the node the cursor points to
  (\<open>None\<close> for \<open>nullptr\<close>); \<open>historyHead\<close> is index 0 and \<open>historyTail\<close> the last index.
\<close>

datatype PieceType = EMPTY | PAWN | KNIGHT | BISHOP | ROOK | QUEEN | KING
datatype Color = NONE | WHITE | BLACK

record Piece =
  type :: PieceType
  color :: Color
  hasMoved :: bool

record Move =
  fromRow :: int
  fromCol :: int
  toRow :: int
  toCol :: int
  promotion :: PieceType
  isEnPassant :: bool
  isCastling :: bool

record GameState =
  board :: "int \<times> int \<Rightarrow> Piece"
  currentPlayer :: Color
  enPassantCol :: int
  enPassantRow :: int
  halfMoveClock :: int
  positionCount :: "string \<rightharpoonup> int"

record ChessGame = GameState +
  undoStack :: "GameState list"
  redoStack :: "GameState list"
  history :: "Move list"
  historyCurrent :: "nat option"

text \<open>\<open>Piece()\<close> and \<open>Piece(t, c)\<close>.\<close>

definition emptyPiece :: Piece where
  "emptyPiece = \<lparr>type = EMPTY, color = NONE, hasMoved = False\<rparr>"

definition mkPiece :: "PieceType \<Rightarrow> Color \<Rightarrow> Piece" where
  "mkPiece t c = \<lparr>type = t, color = c, hasMoved = False\<rparr>"

text \<open>The order in which every \<open>for r ... for c ...\<close> double loop visits the squares.\<close>

definition squares :: "(int \<times> int) list" where
  "squares = concat (map (\<lambda>r. map (\<lambda>c. (r, c)) [0..7]) [0..7])"

section \<open>Helpers\<close>

definition opponent :: "Color \<Rightarrow> Color" where
  "opponent c = (if c = WHITE then BLACK else WHITE)"

definition isValid :: "int \<Rightarrow> int \<Rightarrow> bool" where
  "isValid r c = (r \<ge> 0 \<and> r < 8 \<and> c \<ge> 0 \<and> c < 8)"

text \<open>
  \<open>findKing\<close> writes its two reference parameters only when it finds the king; when there
  is none the caller reads uninitialised variables. \<open>None\<close> stands for that.
\<close>

definition findKing :: "ChessGame \<Rightarrow> Color \<Rightarrow> (int \<times> int) option" where
  "findKing g c =
     find (\<lambda>sq. type (board g sq) = KING \<and> color (board g sq) = c) squares"

section \<open>Attack detection and movement rules\<close>

text \<open>
  The two inner loops of \<open>canPieceMoveTo\<close>. Each walks from a start square towards a
  target with a fixed step and leaves the function with \<open>false\<close> at the first occupied
  square; \<open>Some True\<close> is normal loop exit. Nothing in the loop itself bounds the walk,
  so a walk that never meets its target has no result (\<open>None\<close>).
\<close>

partial_function (option) slidePath ::
  "(int \<times> int \<Rightarrow> Piece) \<Rightarrow> int \<Rightarrow> int \<Rightarrow> int \<Rightarrow> int \<Rightarrow> int \<Rightarrow> int \<Rightarrow> bool option" where
  "slidePath b r c tr tc sr sc =
     (if r \<noteq> tr \<or> c \<noteq> tc
      then (if type (b (r, c)) \<noteq> EMPTY then Some False
            else slidePath b (r + sr) (c + sc) tr tc sr sc)
      else Some True)"

partial_function (option) castlePath ::
  "(int \<times> int \<Rightarrow> Piece) \<Rightarrow> int \<Rightarrow> int \<Rightarrow> int \<Rightarrow> int \<Rightarrow> bool option" where
  "castlePath b fr c rookCol step =
     (if c \<noteq> rookCol
      then (if type (b (fr, c)) \<noteq> EMPTY then Some False
            else castlePath b fr (c + step) rookCol step)
      else Some True)"

declare slidePath.simps [code]
declare castlePath.simps [code]

text \<open>
  A loop over squares that returns \<open>true\<close> at the first square whose test succeeds, and
  has no result when a test it reaches has none.
\<close>

fun anyM :: "('a \<Rightarrow> bool option) \<Rightarrow> 'a list \<Rightarrow> bool option" where
  "anyM f [] = Some False"
| "anyM f (x # xs) =
     (case f x of None \<Rightarrow> None | Some True \<Rightarrow> Some True | Some False \<Rightarrow> anyM f xs)"

lemma anyM_cong [fundef_cong]:
  "xs = ys \<Longrightarrow> (\<And>x. x \<in> set ys \<Longrightarrow> f x = g x) \<Longrightarrow> anyM f xs = anyM g ys"
  by (induction ys arbitrary: xs) (auto split: option.splits bool.splits)

text \<open>
  \<open>isSquareAttacked\<close> and \<open>canPieceMoveTo\<close> call each other: the attack scan asks the
  movement rules with \<open>ignoreCheck = true\<close>, and the castling branch of the movement
  rules, guarded by \<open>!ignoreCheck\<close>, asks the attack scan.
\<close>

function (sequential)
  isSquareAttacked :: "ChessGame \<Rightarrow> int \<Rightarrow> int \<Rightarrow> Color \<Rightarrow> bool option" and
  canPieceMoveTo :: "ChessGame \<Rightarrow> int \<Rightarrow> int \<Rightarrow> int \<Rightarrow> int \<Rightarrow> bool \<Rightarrow> bool option"
where
  "isSquareAttacked g tr tc by =
     anyM (\<lambda>sq.
        let r = fst sq; c = snd sq; p = board g (r, c) in
        if color p \<noteq> by then Some False
        else if type p = PAWN then
          (let dir = (if by = WHITE then - 1 else 1) in
           Some (r + dir = tr \<and> \<bar>c - tc\<bar> = 1))
        else canPieceMoveTo g r c tr tc True) squares"
| "canPieceMoveTo g fr fc tr tc ignoreCheck =
     (let p = board g (fr, fc) in
      if type p = EMPTY \<or> color (board g (tr, tc)) = color p then Some False
      else
        let dr = tr - fr; dc = tc - fc in
        if type p = PAWN then
          (let dir = (if color p = WHITE then - 1 else 1) in
           if dc = 0 \<and> dr = dir \<and> type (board g (tr, tc)) = EMPTY then Some True
           else if dc = 0 \<and> dr = 2 * dir \<and> \<not> hasMoved p \<and>
                   type (board g (fr + dir, fc)) = EMPTY \<and>
                   type (board g (tr, tc)) = EMPTY then Some True
           else if \<bar>dc\<bar> = 1 \<and> dr = dir then
             (if type (board g (tr, tc)) \<noteq> EMPTY then Some True
              else if tc = enPassantCol g \<and>
                      tr = (if color p = WHITE then 2 else 5) then Some True
              else Some False)
           else Some False)
        else if type p = KNIGHT then
          Some ((\<bar>dr\<bar> = 2 \<and> \<bar>dc\<bar> = 1) \<or> (\<bar>dr\<bar> = 1 \<and> \<bar>dc\<bar> = 2))
        else if type p = KING then
          (if \<bar>dr\<bar> \<le> 1 \<and> \<bar>dc\<bar> \<le> 1 then Some True
           else if \<not> ignoreCheck \<and> dr = 0 \<and> \<bar>dc\<bar> = 2 \<and> \<not> hasMoved p then
             (let rookCol = (if dc > 0 then 7 else 0);
                  step = (if dc > 0 then 1 else - 1) in
              if type (board g (fr, rookCol)) = ROOK \<and>
                 \<not> hasMoved (board g (fr, rookCol)) then
                do {
                  free \<leftarrow> castlePath (board g) fr (fc + step) rookCol step;
                  if \<not> free then Some False
                  else do {
                    a1 \<leftarrow> isSquareAttacked g fr fc (opponent (color p));
                    if a1 then Some False
                    else do {
                      a2 \<leftarrow> isSquareAttacked g fr (fc + step) (opponent (color p));
                      if a2 then Some False
                      else do {
                        a3 \<leftarrow> isSquareAttacked g tr tc (opponent (color p));
                        if a3 then Some False else Some True
                      }
                    }
                  }
                }
              else Some False)
           else Some False)
        else
          let diag = (\<bar>dr\<bar> = \<bar>dc\<bar>); straight = (dr = 0 \<or> dc = 0) in
          if type p = BISHOP \<and> \<not> diag then Some False
          else if type p = ROOK \<and> \<not> straight then Some False
          else if type p = QUEEN \<and> \<not> (diag \<or> straight) then Some False
          else
            let sr = (if dr > 0 then 1 else 0) - (if dr < 0 then 1 else 0);
                sc = (if dc > 0 then 1 else 0) - (if dc < 0 then 1 else 0)
            in slidePath (board g) (fr + sr) (fc + sc) tr tc sr sc)"
  by pat_completeness auto

termination
  by (relation "measure (\<lambda>x. case x of
        Inl _ \<Rightarrow> 1
      | Inr (g, fr, fc, tr, tc, ignoreCheck) \<Rightarrow> (if ignoreCheck then 0 else 2))")
     auto

declare isSquareAttacked.simps [simp del]
declare canPieceMoveTo.simps [simp del]

definition isInCheck :: "ChessGame \<Rightarrow> Color \<Rightarrow> bool option" where
  "isInCheck g c =
     do { k \<leftarrow> findKing g c; isSquareAttacked g (fst k) (snd k) (opponent c) }"

section \<open>Legal move generation\<close>

text \<open>
  \<open>testMove\<close> works on the live board: it saves the two squares, moves the piece, asks
  \<open>isInCheck\<close> and writes the saved pieces back. The model returns the answer together
  with the game after the write-back.
\<close>

definition testMove ::
  "ChessGame \<Rightarrow> int \<Rightarrow> int \<Rightarrow> int \<Rightarrow> int \<Rightarrow> (bool \<times> ChessGame) option" where
  "testMove g fr fc tr tc =
     (let a = board g (fr, fc); b = board g (tr, tc);
          g1 = g\<lparr>board := (board g)((tr, tc) := a, (fr, fc) := emptyPiece)\<rparr>
      in do {
        chk \<leftarrow> isInCheck g1 (color a);
        Some (\<not> chk, g1\<lparr>board := (board g1)((fr, fc) := a, (tr, tc) := b)\<rparr>)
      })"

text \<open>A loop whose body updates the loop state and may have no result.\<close>

fun foldM :: "('a \<Rightarrow> 's \<Rightarrow> 's option) \<Rightarrow> 'a list \<Rightarrow> 's \<Rightarrow> 's option" where
  "foldM f [] s = Some s"
| "foldM f (x # xs) s = (case f x s of None \<Rightarrow> None | Some s' \<Rightarrow> foldM f xs s')"

text \<open>
  The body of the innermost loop of \<open>getLegalMoves\<close> for the piece on \<open>(r, col)\<close> and the
  target \<open>(tr, tc)\<close>; the loop state is the vector \<open>moves\<close> and the game (whose board
  \<open>testMove\<close> touches). \<open>&&\<close> calls \<open>testMove\<close> only when \<open>canPieceMoveTo\<close> said yes.
\<close>

definition newMove :: "int \<Rightarrow> int \<Rightarrow> int \<Rightarrow> int \<Rightarrow> Move" where
  "newMove r col tr tc =
     \<lparr>fromRow = r, fromCol = col, toRow = tr, toCol = tc,
      promotion = EMPTY, isEnPassant = False, isCastling = False\<rparr>"

definition taggedMove :: "ChessGame \<Rightarrow> Color \<Rightarrow> int \<Rightarrow> int \<Rightarrow> int \<Rightarrow> int \<Rightarrow> Move" where
  "taggedMove g c r col tr tc =
     (let m = newMove r col tr tc;
          m1 = (if type (board g (r, col)) = KING \<and> \<bar>tc - col\<bar> = 2
                then m\<lparr>isCastling := True\<rparr> else m);
          m2 = (if type (board g (r, col)) = PAWN \<and> tc = enPassantCol g \<and>
                   tr = (if c = WHITE then 2 else 5)
                then m1\<lparr>isEnPassant := True\<rparr> else m1)
      in m2)"

definition emitMoves :: "ChessGame \<Rightarrow> Color \<Rightarrow> int \<Rightarrow> int \<Rightarrow> int \<Rightarrow> int \<Rightarrow> Move list" where
  "emitMoves g c r col tr tc =
     (let m = taggedMove g c r col tr tc in
      if type (board g (r, col)) = PAWN \<and> (tr = 0 \<or> tr = 7)
      then map (\<lambda>p. m\<lparr>promotion := p\<rparr>) [QUEEN, ROOK, BISHOP, KNIGHT]
      else [m])"

definition legalTarget ::
  "Color \<Rightarrow> int \<times> int \<Rightarrow> int \<times> int \<Rightarrow> Move list \<times> ChessGame \<Rightarrow> (Move list \<times> ChessGame) option" where
  "legalTarget c src dst st =
     (let moves = fst st; g = snd st;
          r = fst src; col = snd src; tr = fst dst; tc = snd dst
      in do {
        can \<leftarrow> canPieceMoveTo g r col tr tc False;
        if \<not> can then Some (moves, g)
        else do {
          t \<leftarrow> testMove g r col tr tc;
          if \<not> fst t then Some (moves, snd t)
          else Some (moves @ emitMoves (snd t) c r col tr tc, snd t)
        }
      })"

definition legalSource ::
  "Color \<Rightarrow> int \<times> int \<Rightarrow> Move list \<times> ChessGame \<Rightarrow> (Move list \<times> ChessGame) option" where
  "legalSource c src st =
     (if color (board (snd st) src) = c then foldM (legalTarget c src) squares st
      else Some st)"

definition getLegalMoves :: "ChessGame \<Rightarrow> Color \<Rightarrow> (Move list \<times> ChessGame) option" where
  "getLegalMoves g c = foldM (legalSource c) squares ([], g)"

section \<open>Status\<close>

fun typeCode :: "PieceType \<Rightarrow> nat" where
  "typeCode EMPTY = 0" | "typeCode PAWN = 1" | "typeCode KNIGHT = 2" | "typeCode BISHOP = 3"
| "typeCode ROOK = 4" | "typeCode QUEEN = 5" | "typeCode KING = 6"

fun colorCode :: "Color \<Rightarrow> nat" where
  "colorCode NONE = 0" | "colorCode WHITE = 1" | "colorCode BLACK = 2"

definition digitChar :: "nat \<Rightarrow> char" where
  "digitChar n = char_of (of_char CHR ''0'' + n)"

definition getPositionKey :: "'a GameState_scheme \<Rightarrow> string" where
  "getPositionKey g =
     concat (map (\<lambda>sq. [digitChar (typeCode (type (board g sq))),
                         digitChar (colorCode (color (board g sq)))]) squares)
     @ [digitChar (colorCode (currentPlayer g))]"

text \<open>The range-for over all pieces with the counter \<open>minor\<close> and the early \<open>return false\<close>.\<close>

fun minorLoop :: "(int \<times> int \<Rightarrow> Piece) \<Rightarrow> (int \<times> int) list \<Rightarrow> int \<Rightarrow> bool" where
  "minorLoop b [] minor = (minor \<le> 1)"
| "minorLoop b (sq # rest) minor =
     (if type (b sq) \<noteq> EMPTY \<and> type (b sq) \<noteq> KING
      then (if type (b sq) = BISHOP \<or> type (b sq) = KNIGHT
            then minorLoop b rest (minor + 1)
            else False)
      else minorLoop b rest minor)"

definition insufficientMaterial :: "ChessGame \<Rightarrow> bool" where
  "insufficientMaterial g = minorLoop (board g) squares 0"

text \<open>
  \<open>positionCount[k]\<close>: \<open>operator[]\<close> of the map inserts a zero entry when the key is
  missing, so reading a count can change the map.
\<close>

definition countAt :: "(string \<rightharpoonup> int) \<Rightarrow> string \<Rightarrow> int \<times> (string \<rightharpoonup> int)" where
  "countAt pc k = (case pc k of None \<Rightarrow> (0, pc(k \<mapsto> 0)) | Some n \<Rightarrow> (n, pc))"

definition getGameStatus :: "ChessGame \<Rightarrow> (string \<times> ChessGame) option" where
  "getGameStatus g =
     (let look = countAt (positionCount g) (getPositionKey g);
          g1 = g\<lparr>positionCount := snd look\<rparr>
      in
      if fst look \<ge> 3 then Some (''draw (threefold repetition)'', g1)
      else if halfMoveClock g1 \<ge> 100 then Some (''draw (50-move rule)'', g1)
      else if insufficientMaterial g1 then Some (''draw (insufficient material)'', g1)
      else do {
        lm \<leftarrow> getLegalMoves g1 (currentPlayer g1);
        if fst lm = [] then do {
          chk \<leftarrow> isInCheck (snd lm) (currentPlayer (snd lm));
          Some (if chk then ''checkmate'' else ''stalemate'', snd lm)
        }
        else do {
          chk \<leftarrow> isInCheck (snd lm) (currentPlayer (snd lm));
          if chk then Some (''check'', snd lm) else Some (''active'', snd lm)
        }
      })"

section \<open>Snapshots, move log, move execution, undo and redo\<close>

definition getState :: "ChessGame \<Rightarrow> GameState" where
  "getState g =
     \<lparr>board = board g, currentPlayer = currentPlayer g,
      enPassantCol = enPassantCol g, enPassantRow = enPassantRow g,
      halfMoveClock = halfMoveClock g, positionCount = positionCount g\<rparr>"

definition setState :: "ChessGame \<Rightarrow> GameState \<Rightarrow> ChessGame" where
  "setState g s =
     g\<lparr>board := board s, currentPlayer := currentPlayer s,
       enPassantCol := enPassantCol s, enPassantRow := enPassantRow s,
       halfMoveClock := halfMoveClock s, positionCount := positionCount s\<rparr>"

text \<open>The new node goes to the tail of the log and the cursor onto it.\<close>

definition addMoveToHistory :: "ChessGame \<Rightarrow> Move \<Rightarrow> ChessGame" where
  "addMoveToHistory g m =
     g\<lparr>history := history g @ [m], historyCurrent := Some (length (history g))\<rparr>"

text \<open>
  \<open>makeMove\<close>, block by block in the order of the source. \<open>p\<close> is the local copy of the
  moving piece, read before the board changes.
\<close>

definition updateClock :: "Piece \<Rightarrow> Move \<Rightarrow> ChessGame \<Rightarrow> ChessGame" where
  "updateClock p m g =
     (if type p = PAWN \<or> type (board g (toRow m, toCol m)) \<noteq> EMPTY
      then g\<lparr>halfMoveClock := 0\<rparr>
      else g\<lparr>halfMoveClock := halfMoveClock g + 1\<rparr>)"

definition removeEnPassantPawn :: "Piece \<Rightarrow> Move \<Rightarrow> ChessGame \<Rightarrow> ChessGame" where
  "removeEnPassantPawn p m g =
     (if isEnPassant m
      then (let capturedPawnRow = (if color p = WHITE then toRow m + 1 else toRow m - 1)
            in g\<lparr>board := (board g)((capturedPawnRow, toCol m) := emptyPiece)\<rparr>)
      else g)"

definition trackEnPassant :: "Piece \<Rightarrow> Move \<Rightarrow> ChessGame \<Rightarrow> ChessGame" where
  "trackEnPassant p m g =
     (let g1 = g\<lparr>enPassantCol := - 1, enPassantRow := - 1\<rparr> in
      if type p = PAWN \<and> \<bar>toRow m - fromRow m\<bar> = 2
      then g1\<lparr>enPassantCol := toCol m, enPassantRow := toRow m\<rparr>
      else g1)"

definition castleRook :: "Move \<Rightarrow> ChessGame \<Rightarrow> ChessGame" where
  "castleRook m g =
     (if isCastling m
      then (let rookFrom = (if toCol m > fromCol m then 7 else 0);
                rookTo = (if toCol m > fromCol m then toCol m - 1 else toCol m + 1);
                b1 = (board g)((fromRow m, rookTo) := board g (fromRow m, rookFrom))
            in g\<lparr>board := b1((fromRow m, rookFrom) := emptyPiece)\<rparr>)
      else g)"

definition movePiece :: "Piece \<Rightarrow> Move \<Rightarrow> ChessGame \<Rightarrow> ChessGame" where
  "movePiece p m g =
     (let b1 = (board g)((toRow m, toCol m) := p);
          b2 = b1((toRow m, toCol m) := (b1 (toRow m, toCol m))\<lparr>hasMoved := True\<rparr>)
      in g\<lparr>board := b2((fromRow m, fromCol m) := emptyPiece)\<rparr>)"

definition promote :: "Move \<Rightarrow> ChessGame \<Rightarrow> ChessGame" where
  "promote m g =
     (if promotion m \<noteq> EMPTY
      then g\<lparr>board := (board g)((toRow m, toCol m) :=
                 (board g (toRow m, toCol m))\<lparr>type := promotion m\<rparr>)\<rparr>
      else g)"

text \<open>\<open>positionCount[getPositionKey()]++\<close>, here and in the constructor.\<close>

definition countPosition :: "ChessGame \<Rightarrow> ChessGame" where
  "countPosition g =
     (let look = countAt (positionCount g) (getPositionKey g)
      in g\<lparr>positionCount := (snd look)(getPositionKey g \<mapsto> fst look + 1)\<rparr>)"

definition makeMove :: "ChessGame \<Rightarrow> Move \<Rightarrow> ChessGame" where
  "makeMove g m =
     (let g1 = g\<lparr>undoStack := getState g # undoStack g\<rparr>;
          g2 = g1\<lparr>redoStack := []\<rparr>;
          g3 = addMoveToHistory g2 m;
          p = board g3 (fromRow m, fromCol m);
          g4 = updateClock p m g3;
          g5 = removeEnPassantPawn p m g4;
          g6 = trackEnPassant p m g5;
          g7 = castleRook m g6;
          g8 = movePiece p m g7;
          g9 = promote m g8;
          g10 = g9\<lparr>currentPlayer := opponent (currentPlayer g9)\<rparr>
      in countPosition g10)"

text \<open>
  \<open>historyCurrent->prev\<close> of the head node is \<open>nullptr\<close>; \<open>historyCurrent->next\<close> exists
  unless the cursor is on the tail.
\<close>

definition undo :: "ChessGame \<Rightarrow> ChessGame" where
  "undo g =
     (case undoStack g of
        [] \<Rightarrow> g
      | prev # rest \<Rightarrow>
          (let g1 = g\<lparr>redoStack := getState g # redoStack g\<rparr>;
               g2 = g1\<lparr>undoStack := rest\<rparr>;
               g3 = setState g2 prev
           in case historyCurrent g3 of
                None \<Rightarrow> g3
              | Some i \<Rightarrow> g3\<lparr>historyCurrent := (if i = 0 then None else Some (i - 1))\<rparr>))"

definition redo :: "ChessGame \<Rightarrow> ChessGame" where
  "redo g =
     (case redoStack g of
        [] \<Rightarrow> g
      | next # rest \<Rightarrow>
          (let g1 = g\<lparr>undoStack := getState g # undoStack g\<rparr>;
               g2 = g1\<lparr>redoStack := rest\<rparr>;
               g3 = setState g2 next
           in case historyCurrent g3 of
                None \<Rightarrow> g3\<lparr>historyCurrent := (if history g3 = [] then None else Some 0)\<rparr>
              | Some i \<Rightarrow>
                  (if i + 1 < length (history g3)
                   then g3\<lparr>historyCurrent := Some (i + 1)\<rparr> else g3)))"

section \<open>Construction, parsing and the command loop\<close>

definition backRank :: "PieceType list" where
  "backRank = [ROOK, KNIGHT, BISHOP, QUEEN, KING, BISHOP, KNIGHT, ROOK]"

definition setupBoard :: "int \<times> int \<Rightarrow> Piece" where
  "setupBoard =
     fold (\<lambda>i b. b((0, i) := mkPiece (backRank ! nat i) BLACK,
                   (1, i) := mkPiece PAWN BLACK,
                   (6, i) := mkPiece PAWN WHITE,
                   (7, i) := mkPiece (backRank ! nat i) WHITE))
          [0..7] (\<lambda>sq. emptyPiece)"

definition newGame :: ChessGame where
  "newGame =
     countPosition
       \<lparr>board = setupBoard, currentPlayer = WHITE,
        enPassantCol = - 1, enPassantRow = - 1, halfMoveClock = 0,
        positionCount = Map.empty,
        undoStack = [], redoStack = [], history = [], historyCurrent = None\<rparr>"

text \<open>
  \<open>tolower\<close> and \<open>toupper\<close> in the C locale, on the character's code. \<open>parseMove\<close> fills
  the caller's fresh \<open>Move u\<close> (no promotion, no flags); \<open>None\<close> is its \<open>false\<close>, after
  which \<open>play\<close> does not look at \<open>u\<close>.
\<close>

definition tolower :: "char \<Rightarrow> char" where
  "tolower ch =
     (let n = (of_char ch :: nat) in
      if of_char CHR ''A'' \<le> n \<and> n \<le> of_char CHR ''Z'' then char_of (n + 32) else ch)"

definition toupper :: "char \<Rightarrow> char" where
  "toupper ch =
     (let n = (of_char ch :: nat) in
      if of_char CHR ''a'' \<le> n \<and> n \<le> of_char CHR ''z'' then char_of (n - 32) else ch)"

definition charDiff :: "char \<Rightarrow> char \<Rightarrow> int" where
  "charDiff a b = (of_char a :: int) - of_char b"

definition parseMove :: "string \<Rightarrow> Move option" where
  "parseMove s0 =
     (if length s0 < 4 then None
      else
        let s = map tolower s0;
            m = \<lparr>fromRow = 8 - charDiff (s ! 1) CHR ''0'', fromCol = charDiff (s ! 0) CHR ''a'',
                 toRow = 8 - charDiff (s ! 3) CHR ''0'', toCol = charDiff (s ! 2) CHR ''a'',
                 promotion = EMPTY, isEnPassant = False, isCastling = False\<rparr>;
            m1 = (if length s \<ge> 5
                  then (let p = toupper (s ! 4);
                            q1 = (if p = CHR ''Q'' then m\<lparr>promotion := QUEEN\<rparr> else m);
                            q2 = (if p = CHR ''R'' then q1\<lparr>promotion := ROOK\<rparr> else q1);
                            q3 = (if p = CHR ''B'' then q2\<lparr>promotion := BISHOP\<rparr> else q2);
                            q4 = (if p = CHR ''N'' then q3\<lparr>promotion := KNIGHT\<rparr> else q3)
                        in q4)
                  else m)
        in if isValid (fromRow m1) (fromCol m1) \<and> isValid (toRow m1) (toCol m1)
           then Some m1 else None)"

text \<open>
  \<open>printState\<close> calls \<open>getGameStatus\<close>; what it prints is not part of the game, the
  effect of \<open>getGameStatus\<close> on the game is.
\<close>

definition printState :: "ChessGame \<Rightarrow> ChessGame option" where
  "printState g = map_option snd (getGameStatus g)"

datatype Response = Accepted | ERROR_InvalidMove | ERROR_IllegalMove

text \<open>The search loop of \<open>play\<close>: the first legal move with the parsed squares.\<close>

definition sameSquares :: "Move \<Rightarrow> Move \<Rightarrow> bool" where
  "sameSquares u m =
     (fromRow m = fromRow u \<and> fromCol m = fromCol u \<and>
      toRow m = toRow u \<and> toCol m = toCol u)"

text \<open>One \<open>MOVE s\<close> command: the answer and the game after the final \<open>printState\<close>.\<close>

definition playMove :: "ChessGame \<Rightarrow> string \<Rightarrow> (Response \<times> ChessGame) option" where
  "playMove g s =
     (case parseMove s of
        None \<Rightarrow> do { g' \<leftarrow> printState g; Some (ERROR_InvalidMove, g') }
      | Some u \<Rightarrow> do {
          lm \<leftarrow> getLegalMoves g (currentPlayer g);
          case find (sameSquares u) (fst lm) of
            None \<Rightarrow> do { g' \<leftarrow> printState (snd lm); Some (ERROR_IllegalMove, g') }
          | Some a \<Rightarrow> do { g' \<leftarrow> printState (makeMove (snd lm) a); Some (Accepted, g') }
        })"

text \<open>
  One round of the loop for a command other than \<open>QUIT\<close> (which leaves the loop): the game
  after it. \<open>OTHER\<close> is any other word; the loop only prints the state for it.
\<close>

datatype Command = UNDO | REDO | MOVE string | OTHER

definition playCommand :: "ChessGame \<Rightarrow> Command \<Rightarrow> ChessGame option" where
  "playCommand g cmd =
     (case cmd of
        UNDO \<Rightarrow> printState (undo g)
      | REDO \<Rightarrow> printState (redo g)
      | MOVE s \<Rightarrow> map_option snd (playMove g s)
      | OTHER \<Rightarrow> printState g)"

section \<open>Definitions used to state and prove the properties\<close>

text \<open>
  Nothing below is part of the program. These definitions restate what the functions
  above compute in a form that is convenient for proofs and evaluation (each is tied to
  the source function by a lemma), name the quantities the properties speak about, and
  fix the concrete positions used as examples.
\<close>

subsection \<open>Movement rules and attack scan over the board alone\<close>

text \<open>
  The walks of \<open>canPieceMoveTo\<close> always reach their target in the calls the program makes:
  a sliding piece only walks after its pattern test, and the castling walk starts beside a
  king whose target column is on the board. \<open>clearN b r c sr sc n\<close> says that the \<open>n\<close>
  squares of a walk from \<open>(r, c)\<close> with step \<open>(sr, sc)\<close> are empty, and \<open>sgnStep\<close> is
  the source's \<open>(d > 0) - (d < 0)\<close>. \<open>rawMove\<close> is \<open>canPieceMoveTo\<close> with
  \<open>ignoreCheck = true\<close>, \<open>attacked\<close> is \<open>isSquareAttacked\<close>, \<open>castleRule\<close> is the castling
  branch and \<open>fullMove\<close> is \<open>canPieceMoveTo\<close> with \<open>ignoreCheck = false\<close> (lemmas
  \<open>canPieceMoveTo_raw\<close>, \<open>isSquareAttacked_eq\<close>, \<open>canPieceMoveTo_full\<close>).
\<close>

fun clearN :: "(int \<times> int \<Rightarrow> Piece) \<Rightarrow> int \<Rightarrow> int \<Rightarrow> int \<Rightarrow> int \<Rightarrow> nat \<Rightarrow> bool" where
  "clearN b r c sr sc 0 = True"
| "clearN b r c sr sc (Suc n) = (type (b (r, c)) = EMPTY \<and> clearN b (r + sr) (c + sc) sr sc n)"

definition sgnStep :: "int \<Rightarrow> int" where
  "sgnStep d = (if d > 0 then 1 else 0) - (if d < 0 then 1 else 0)"

definition pawnRule :: "(int \<times> int \<Rightarrow> Piece) \<Rightarrow> int \<Rightarrow> int \<Rightarrow> int \<Rightarrow> int \<Rightarrow> int \<Rightarrow> bool" where
  "pawnRule b epc fr fc tr tc =
     (let p = b (fr, fc); dr = tr - fr; dc = tc - fc;
          dir = (if color p = WHITE then - 1 else 1)
      in (dc = 0 \<and> dr = dir \<and> type (b (tr, tc)) = EMPTY) \<or>
         (dc = 0 \<and> dr = 2 * dir \<and> \<not> hasMoved p \<and>
          type (b (fr + dir, fc)) = EMPTY \<and> type (b (tr, tc)) = EMPTY) \<or>
         (\<bar>dc\<bar> = 1 \<and> dr = dir \<and>
          (type (b (tr, tc)) \<noteq> EMPTY \<or>
           (tc = epc \<and> tr = (if color p = WHITE then 2 else 5)))))"

definition slideRule :: "(int \<times> int \<Rightarrow> Piece) \<Rightarrow> int \<Rightarrow> int \<Rightarrow> int \<Rightarrow> int \<Rightarrow> bool" where
  "slideRule b fr fc tr tc =
     (let p = b (fr, fc); dr = tr - fr; dc = tc - fc;
          diag = (\<bar>dr\<bar> = \<bar>dc\<bar>); straight = (dr = 0 \<or> dc = 0)
      in \<not> (type p = BISHOP \<and> \<not> diag) \<and> \<not> (type p = ROOK \<and> \<not> straight) \<and>
         \<not> (type p = QUEEN \<and> \<not> (diag \<or> straight)) \<and>
         clearN b (fr + sgnStep dr) (fc + sgnStep dc) (sgnStep dr) (sgnStep dc)
           (nat (max \<bar>dr\<bar> \<bar>dc\<bar>) - 1))"

definition rawMove :: "(int \<times> int \<Rightarrow> Piece) \<Rightarrow> int \<Rightarrow> int \<Rightarrow> int \<Rightarrow> int \<Rightarrow> int \<Rightarrow> bool" where
  "rawMove b epc fr fc tr tc =
     (let p = b (fr, fc); dr = tr - fr; dc = tc - fc in
      type p \<noteq> EMPTY \<and> color (b (tr, tc)) \<noteq> color p \<and>
      (if type p = PAWN then pawnRule b epc fr fc tr tc
       else if type p = KNIGHT then (\<bar>dr\<bar> = 2 \<and> \<bar>dc\<bar> = 1) \<or> (\<bar>dr\<bar> = 1 \<and> \<bar>dc\<bar> = 2)
       else if type p = KING then \<bar>dr\<bar> \<le> 1 \<and> \<bar>dc\<bar> \<le> 1
       else slideRule b fr fc tr tc))"

definition attacked :: "(int \<times> int \<Rightarrow> Piece) \<Rightarrow> int \<Rightarrow> int \<Rightarrow> Color \<Rightarrow> bool" where
  "attacked b tr tc by =
     list_ex (\<lambda>sq. color (b sq) = by \<and>
        (if type (b sq) = PAWN
         then fst sq + (if by = WHITE then - 1 else 1) = tr \<and> \<bar>snd sq - tc\<bar> = 1
         else rawMove b 0 (fst sq) (snd sq) tr tc)) squares"

definition castleRule :: "(int \<times> int \<Rightarrow> Piece) \<Rightarrow> int \<Rightarrow> int \<Rightarrow> int \<Rightarrow> int \<Rightarrow> bool" where
  "castleRule b fr fc tr tc =
     (let p = b (fr, fc); dr = tr - fr; dc = tc - fc;
          rookCol = (if dc > 0 then 7 else 0); step = (if dc > 0 then 1 else - 1)
      in type p = KING \<and> color (b (tr, tc)) \<noteq> color p \<and>
         dr = 0 \<and> \<bar>dc\<bar> = 2 \<and> \<not> hasMoved p \<and>
         type (b (fr, rookCol)) = ROOK \<and> \<not> hasMoved (b (fr, rookCol)) \<and>
         clearN b fr (fc + step) 0 step (nat \<bar>rookCol - fc\<bar> - 1) \<and>
         \<not> attacked b fr fc (opponent (color p)) \<and>
         \<not> attacked b fr (fc + step) (opponent (color p)) \<and>
         \<not> attacked b tr tc (opponent (color p)))"

definition fullMove :: "(int \<times> int \<Rightarrow> Piece) \<Rightarrow> int \<Rightarrow> int \<Rightarrow> int \<Rightarrow> int \<Rightarrow> int \<Rightarrow> bool" where
  "fullMove b epc fr fc tr tc = (rawMove b epc fr fc tr tc \<or> castleRule b fr fc tr tc)"

subsection \<open>Check detection and the move generator without the loop state\<close>

text \<open>
  \<open>kingSquare\<close> is \<open>findKing\<close> and \<open>inCheck\<close> is \<open>isInCheck\<close>, on the board.
  \<open>probeBoard\<close> is the board while \<open>testMove\<close> asks its question, and \<open>moveProbe\<close> the
  answer of \<open>testMove\<close>. \<open>testMove\<close> gives the board back as it found it, so the loop
  state of \<open>getLegalMoves\<close> never changes; what is left is the list of moves
  (\<open>legalMoves\<close>, collected per source square and per target square), or no result when
  some probe cannot find the mover's king. \<open>legalAt g c src dst\<close> says that the inner
  loop body of \<open>getLegalMoves\<close> emits moves for this pair of squares.
\<close>

definition kingSquare :: "(int \<times> int \<Rightarrow> Piece) \<Rightarrow> Color \<Rightarrow> (int \<times> int) option" where
  "kingSquare b c = find (\<lambda>sq. type (b sq) = KING \<and> color (b sq) = c) squares"

definition inCheck :: "(int \<times> int \<Rightarrow> Piece) \<Rightarrow> Color \<Rightarrow> bool option" where
  "inCheck b c = map_option (\<lambda>k. attacked b (fst k) (snd k) (opponent c)) (kingSquare b c)"

definition probeBoard :: "(int \<times> int \<Rightarrow> Piece) \<Rightarrow> int \<Rightarrow> int \<Rightarrow> int \<Rightarrow> int \<Rightarrow> (int \<times> int \<Rightarrow> Piece)" where
  "probeBoard b fr fc tr tc = b((tr, tc) := b (fr, fc), (fr, fc) := emptyPiece)"

definition moveProbe :: "(int \<times> int \<Rightarrow> Piece) \<Rightarrow> int \<Rightarrow> int \<Rightarrow> int \<Rightarrow> int \<Rightarrow> bool option" where
  "moveProbe b fr fc tr tc =
     map_option Not (inCheck (probeBoard b fr fc tr tc) (color (b (fr, fc))))"

fun collect :: "('a \<Rightarrow> 'b list option) \<Rightarrow> 'a list \<Rightarrow> 'b list option" where
  "collect f [] = Some []"
| "collect f (x # xs) =
     (case f x of None \<Rightarrow> None | Some ys \<Rightarrow> map_option ((@) ys) (collect f xs))"

definition targetMoves :: "ChessGame \<Rightarrow> Color \<Rightarrow> int \<times> int \<Rightarrow> int \<times> int \<Rightarrow> Move list option" where
  "targetMoves g c src dst =
     (if \<not> fullMove (board g) (enPassantCol g) (fst src) (snd src) (fst dst) (snd dst)
      then Some []
      else map_option
             (\<lambda>ok. if ok then emitMoves g c (fst src) (snd src) (fst dst) (snd dst) else [])
             (moveProbe (board g) (fst src) (snd src) (fst dst) (snd dst)))"

definition sourceMoves :: "ChessGame \<Rightarrow> Color \<Rightarrow> int \<times> int \<Rightarrow> Move list option" where
  "sourceMoves g c src =
     (if color (board g src) = c then collect (targetMoves g c src) squares else Some [])"

definition legalMoves :: "ChessGame \<Rightarrow> Color \<Rightarrow> Move list option" where
  "legalMoves g c = collect (sourceMoves g c) squares"

definition legalAt :: "ChessGame \<Rightarrow> Color \<Rightarrow> int \<times> int \<Rightarrow> int \<times> int \<Rightarrow> bool" where
  "legalAt g c src dst =
     (color (board g src) = c \<and>
      fullMove (board g) (enPassantCol g) (fst src) (snd src) (fst dst) (snd dst) \<and>
      moveProbe (board g) (fst src) (snd src) (fst dst) (snd dst) = Some True)"

text \<open>
  \<open>play\<close> compares only the four coordinates and stops at the first match. The moves for
  one pair of squares are adjacent in the list, the queen promotion first, so the move
  it finds is \<open>firstMove\<close> (lemma \<open>legalMoves_find\<close>).
\<close>

definition firstMove :: "ChessGame \<Rightarrow> Color \<Rightarrow> Move \<Rightarrow> Move" where
  "firstMove g c u =
     (taggedMove g c (fromRow u) (fromCol u) (toRow u) (toCol u))
       \<lparr>promotion := (if type (board g (fromRow u, fromCol u)) = PAWN \<and>
                          (toRow u = 0 \<or> toRow u = 7)
                       then QUEEN else EMPTY)\<rparr>"

subsection \<open>The board after a move, and counted positions\<close>

text \<open>
  \<open>moveBoard\<close> is the board after \<open>makeMove\<close> (lemma \<open>board_makeMove\<close>). \<open>keyed\<close> says
  that the current position has an entry in \<open>positionCount\<close>, so that reading its count
  inserts nothing; \<open>allKeyed\<close> says so of the game and of every snapshot on its stacks.
\<close>

definition moveBoard :: "(int \<times> int \<Rightarrow> Piece) \<Rightarrow> Move \<Rightarrow> (int \<times> int \<Rightarrow> Piece)" where
  "moveBoard b m =
     (let p = b (fromRow m, fromCol m);
          b5 = (if isEnPassant m
                then b((if color p = WHITE then toRow m + 1 else toRow m - 1, toCol m) := emptyPiece)
                else b);
          b7 = (if isCastling m
                then b5((fromRow m, if toCol m > fromCol m then toCol m - 1 else toCol m + 1) :=
                          b5 (fromRow m, if toCol m > fromCol m then 7 else 0),
                        (fromRow m, if toCol m > fromCol m then 7 else 0) := emptyPiece)
                else b5);
          b8 = b7((toRow m, toCol m) := p\<lparr>hasMoved := True\<rparr>, (fromRow m, fromCol m) := emptyPiece)
      in if promotion m \<noteq> EMPTY
         then b8((toRow m, toCol m) := (b8 (toRow m, toCol m))\<lparr>type := promotion m\<rparr>)
         else b8)"

definition keyed :: "'a GameState_scheme \<Rightarrow> bool" where
  "keyed g = (positionCount g (getPositionKey g) \<noteq> None)"

definition allKeyed :: "ChessGame \<Rightarrow> bool" where
  "allKeyed g = (keyed g \<and> list_all keyed (undoStack g) \<and> list_all keyed (redoStack g))"

subsection \<open>Status\<close>

text \<open>
  \<open>repetitions\<close> is the value \<open>getGameStatus\<close> reads from \<open>positionCount\<close>, \<open>statusOf\<close> the
  string it returns, and \<open>moveStatus\<close> its last four lines: the classification by legal
  moves and check. \<open>heavy\<close> and \<open>minorPiece\<close> are the two kinds of piece the loop of
  \<open>insufficientMaterial\<close> tells apart.
\<close>

definition heavy :: "Piece \<Rightarrow> bool" where
  "heavy p = (type p = PAWN \<or> type p = ROOK \<or> type p = QUEEN)"

definition minorPiece :: "Piece \<Rightarrow> bool" where
  "minorPiece p = (type p = BISHOP \<or> type p = KNIGHT)"

definition repetitions :: "ChessGame \<Rightarrow> int" where
  "repetitions g = fst (countAt (positionCount g) (getPositionKey g))"

definition statusOf :: "ChessGame \<Rightarrow> string option" where
  "statusOf g = map_option fst (getGameStatus g)"

definition moveStatus :: "ChessGame \<Rightarrow> string option" where
  "moveStatus g =
     do {
       lm \<leftarrow> getLegalMoves g (currentPlayer g);
       chk \<leftarrow> isInCheck g (currentPlayer g);
       Some (if fst lm = [] then (if chk then ''checkmate'' else ''stalemate'')
             else if chk then ''check'' else ''active'')
     }"

subsection \<open>Recursive calls\<close>

text \<open>
  \<open>invokes caller callee\<close>: the call \<open>caller\<close> of the mutually recursive pair reaches the
  recursive call \<open>callee\<close> in its body, as the definition of the pair records it (\<open>Inl\<close>
  is a call of \<open>isSquareAttacked\<close>, \<open>Inr\<close> a call of \<open>canPieceMoveTo\<close>).
\<close>

definition invokes ::
  "(ChessGame \<times> int \<times> int \<times> Color) + (ChessGame \<times> int \<times> int \<times> int \<times> int \<times> bool) \<Rightarrow>
   (ChessGame \<times> int \<times> int \<times> Color) + (ChessGame \<times> int \<times> int \<times> int \<times> int \<times> bool) \<Rightarrow> bool" where
  "invokes caller callee = isSquareAttacked_canPieceMoveTo_rel callee caller"

subsection \<open>Games the command loop reaches\<close>

text \<open>
  The games \<open>play\<close> can be in when it reads a command: \<open>main\<close> constructs the game and
  \<open>play\<close> prints it, then every command leads to the next game.
\<close>

inductive reachable :: "ChessGame \<Rightarrow> bool" where
  start: "printState newGame = Some g \<Longrightarrow> reachable g"
| step: "reachable g \<Longrightarrow> playCommand g cmd = Some g' \<Longrightarrow> reachable g'"

text \<open>
  \<open>played ms\<close> is the game after the moves \<open>ms\<close> were executed from the start, and
  \<open>positionAfter ms\<close> its board and en-passant column. \<open>legalIn\<close> and \<open>firstIn\<close> are
  \<open>legalAt\<close> and \<open>firstMove\<close> on such a position.
\<close>

definition played :: "Move list \<Rightarrow> ChessGame" where
  "played ms = foldl makeMove newGame ms"

definition stepPosition :: "(int \<times> int \<Rightarrow> Piece) \<times> int \<Rightarrow> Move \<Rightarrow> (int \<times> int \<Rightarrow> Piece) \<times> int" where
  "stepPosition be m =
     (moveBoard (fst be) m,
      if type (fst be (fromRow m, fromCol m)) = PAWN \<and> \<bar>toRow m - fromRow m\<bar> = 2
      then toCol m else - 1)"

definition positionAfter :: "Move list \<Rightarrow> (int \<times> int \<Rightarrow> Piece) \<times> int" where
  "positionAfter ms = foldl stepPosition (setupBoard, - 1) ms"

text \<open>A game holding nothing but a board and an en-passant column.\<close>

definition bare :: "(int \<times> int \<Rightarrow> Piece) \<Rightarrow> int \<Rightarrow> ChessGame" where
  "bare b epc =
     \<lparr>board = b, currentPlayer = NONE, enPassantCol = epc, enPassantRow = - 1,
      halfMoveClock = 0, positionCount = Map.empty,
      undoStack = [], redoStack = [], history = [], historyCurrent = None\<rparr>"

definition legalIn :: "(int \<times> int \<Rightarrow> Piece) \<times> int \<Rightarrow> Color \<Rightarrow> Move \<Rightarrow> bool" where
  "legalIn be c u =
     (color (fst be (fromRow u, fromCol u)) = c \<and>
      fullMove (fst be) (snd be) (fromRow u) (fromCol u) (toRow u) (toCol u) \<and>
      moveProbe (fst be) (fromRow u) (fromCol u) (toRow u) (toCol u) = Some True)"

definition firstIn :: "(int \<times> int \<Rightarrow> Piece) \<times> int \<Rightarrow> Color \<Rightarrow> Move \<Rightarrow> Move" where
  "firstIn be c u = firstMove (bare (fst be) (snd be)) c u"

subsection \<open>Example positions\<close>

text \<open>
  White king a1, black queen b2, black king c3, White to move, the position counted
  three times: White is in check and has no legal move.
\<close>

definition mateBoard :: "int \<times> int \<Rightarrow> Piece" where
  "mateBoard = (\<lambda>sq. emptyPiece)
     ((7, 0) := \<lparr>type = KING, color = WHITE, hasMoved = True\<rparr>,
      (6, 1) := \<lparr>type = QUEEN, color = BLACK, hasMoved = True\<rparr>,
      (5, 2) := \<lparr>type = KING, color = BLACK, hasMoved = True\<rparr>)"

definition mateGame :: ChessGame where
  "mateGame =
     (let g = (bare mateBoard (- 1))\<lparr>currentPlayer := WHITE\<rparr>
      in g\<lparr>positionCount := [getPositionKey g \<mapsto> 3]\<rparr>)"

text \<open>King and bishop, king and knight, king and two bishops, each against a bare king.\<close>

definition kbkBoard :: "int \<times> int \<Rightarrow> Piece" where
  "kbkBoard = (\<lambda>sq. emptyPiece)
     ((7, 4) := mkPiece KING WHITE, (7, 2) := mkPiece BISHOP WHITE, (0, 4) := mkPiece KING BLACK)"

definition knkBoard :: "int \<times> int \<Rightarrow> Piece" where
  "knkBoard = (\<lambda>sq. emptyPiece)
     ((7, 4) := mkPiece KING WHITE, (0, 1) := mkPiece KNIGHT BLACK, (0, 4) := mkPiece KING BLACK)"

definition kbbkBoard :: "int \<times> int \<Rightarrow> Piece" where
  "kbbkBoard = (\<lambda>sq. emptyPiece)
     ((7, 4) := mkPiece KING WHITE, (7, 2) := mkPiece BISHOP WHITE,
      (7, 5) := mkPiece BISHOP WHITE, (0, 4) := mkPiece KING BLACK)"

text \<open>King e1 and rook h1, neither moved, against a king on e8.\<close>

definition castleBoard :: "int \<times> int \<Rightarrow> Piece" where
  "castleBoard = (\<lambda>sq. emptyPiece)
     ((7, 4) := mkPiece KING WHITE, (7, 7) := mkPiece ROOK WHITE, (0, 4) := mkPiece KING BLACK)"

text \<open>The position after 1. e4 a6 2. e5 d5, and White's capture e5 takes d6 en passant.\<close>

definition e2e4 :: Move where "e2e4 = newMove 6 4 4 4"

definition a7a6 :: Move where "a7a6 = newMove 1 0 2 0"

definition e4e5 :: Move where "e4e5 = newMove 4 4 3 4"

definition d7d5 :: Move where "d7d5 = newMove 1 3 3 3"

definition afterD5 :: ChessGame where
  "afterD5 = makeMove (makeMove (makeMove (makeMove newGame e2e4) a7a6) e4e5) d7d5"

definition exd6 :: Move where "exd6 = (newMove 3 4 2 3)\<lparr>isEnPassant := True\<rparr>"

text \<open>
  The commands \<open>e2e3 c7c6 g2g4 d8a5 g4g5 a7a6 e1e2 b7b6 e2f3 a8a7 f3g4 a7a8 g4h5 f7f5\<close>
  put White's king on h5 and pawn on g5, Black's queen on a5 and a black pawn, just
  advanced two squares, on f5; nothing else stands on the fifth rank. \<open>gxf6\<close> is the
  en-passant capture of that pawn.
\<close>

definition pinMoves :: "Move list" where
  "pinMoves =
     [newMove 6 4 5 4,
      newMove 1 2 2 2,
      newMove 6 6 4 6,
      newMove 0 3 3 0,
      newMove 4 6 3 6,
      newMove 1 0 2 0,
      newMove 7 4 6 4,
      newMove 1 1 2 1,
      newMove 6 4 5 5,
      newMove 0 0 1 0,
      newMove 5 5 4 6,
      newMove 1 0 0 0,
      newMove 4 6 3 7,
      newMove 1 5 3 5]"

definition pinGame :: ChessGame where
  "pinGame = played pinMoves"

definition gxf6 :: Move where "gxf6 = (newMove 3 6 2 5)\<lparr>isEnPassant := True\<rparr>"

text \<open>
  The commands \<open>h2h4 g7g5 h4g5 h7h6 g5h6 a7a6 h6h7 a6a5\<close> bring a white pawn to h7 with a
  black knight on g8 to capture; \<open>hxg8Q\<close> and \<open>hxg8R\<close> are the capture promoting to a
  queen and to a rook.
\<close>

definition promoMoves :: "Move list" where
  "promoMoves =
     [newMove 6 7 4 7,
      newMove 1 6 3 6,
      newMove 4 7 3 6,
      newMove 1 7 2 7,
      newMove 3 6 2 7,
      newMove 1 0 2 0,
      newMove 2 7 1 7,
      newMove 2 0 3 0]"

definition promoGame :: ChessGame where
  "promoGame = played promoMoves"

definition hxg8Q :: Move where "hxg8Q = (newMove 1 7 0 6)\<lparr>promotion := QUEEN\<rparr>"

definition hxg8R :: Move where "hxg8R = (newMove 1 7 0 6)\<lparr>promotion := ROOK\<rparr>"

section \<open>The movement rules and the attack scan as total functions\<close>

lemma slidePath_steps:
  "sr \<noteq> 0 \<or> sc \<noteq> 0 \<Longrightarrow>
   slidePath b r c (r + int n * sr) (c + int n * sc) sr sc = Some (clearN b r c sr sc n)"
proof (induction n arbitrary: r c)
  case 0
  show ?case by (subst slidePath.simps) simp
next
  case (Suc n)
  have tgt: "r + int (Suc n) * sr = (r + sr) + int n * sr"
            "c + int (Suc n) * sc = (c + sc) + int n * sc"
    by (simp_all add: algebra_simps)
  have ne: "r \<noteq> r + int (Suc n) * sr \<or> c \<noteq> c + int (Suc n) * sc"
    using Suc.prems by auto
  show ?case
    apply (subst slidePath.simps)
    using ne Suc.IH [OF Suc.prems, of "r + sr" "c + sc"]
    by (simp add: tgt del: of_nat_Suc)
qed

lemma castlePath_steps:
  "step \<noteq> 0 \<Longrightarrow>
   castlePath b fr c (c + int n * step) step = Some (clearN b fr c 0 step n)"
proof (induction n arbitrary: c)
  case 0
  show ?case by (subst castlePath.simps) simp
next
  case (Suc n)
  have tgt: "c + int (Suc n) * step = (c + step) + int n * step"
    by (simp add: algebra_simps)
  have ne: "c \<noteq> c + int (Suc n) * step"
    using Suc.prems by auto
  show ?case
    apply (subst castlePath.simps)
    using ne Suc.IH [OF Suc.prems, of "c + step"]
    by (simp add: tgt del: of_nat_Suc)
qed

lemma slide_target:
  assumes "dr \<noteq> 0 \<or> dc \<noteq> 0" and "\<bar>dr\<bar> = \<bar>dc\<bar> \<or> dr = 0 \<or> dc = 0"
  shows "dr = sgnStep dr + int (nat (max \<bar>dr\<bar> \<bar>dc\<bar>) - 1) * sgnStep dr"
    and "dc = sgnStep dc + int (nat (max \<bar>dr\<bar> \<bar>dc\<bar>) - 1) * sgnStep dc"
    and "sgnStep dr \<noteq> 0 \<or> sgnStep dc \<noteq> 0"
  using assms by (auto simp: sgnStep_def max_def algebra_simps abs_if nat_diff_distrib split: if_splits)

lemma slidePath_slide:
  assumes "tr \<noteq> fr \<or> tc \<noteq> fc" and "\<bar>tr - fr\<bar> = \<bar>tc - fc\<bar> \<or> tr - fr = 0 \<or> tc - fc = 0"
  shows "slidePath b (fr + sgnStep (tr - fr)) (fc + sgnStep (tc - fc)) tr tc
           (sgnStep (tr - fr)) (sgnStep (tc - fc))
         = Some (clearN b (fr + sgnStep (tr - fr)) (fc + sgnStep (tc - fc))
                   (sgnStep (tr - fr)) (sgnStep (tc - fc))
                   (nat (max \<bar>tr - fr\<bar> \<bar>tc - fc\<bar>) - 1))"
proof -
  let ?dr = "tr - fr" and ?dc = "tc - fc"
  let ?n = "nat (max \<bar>?dr\<bar> \<bar>?dc\<bar>) - 1"
  have nz: "?dr \<noteq> 0 \<or> ?dc \<noteq> 0" using assms(1) by auto
  have a: "tr = (fr + sgnStep ?dr) + int ?n * sgnStep ?dr"
    using slide_target(1) [OF nz assms(2)] by linarith
  have b: "tc = (fc + sgnStep ?dc) + int ?n * sgnStep ?dc"
    using slide_target(2) [OF nz assms(2)] by linarith
  have c: "sgnStep ?dr \<noteq> 0 \<or> sgnStep ?dc \<noteq> 0"
    using slide_target(3) [OF nz assms(2)] .
  show ?thesis
    using slidePath_steps [OF c, where b = b and r = "fr + sgnStep ?dr" and n = ?n and c = "fc + sgnStep ?dc"] a b by simp
qed

lemma canPieceMoveTo_blocked:
  "type (board g (fr, fc)) = EMPTY \<or> color (board g (tr, tc)) = color (board g (fr, fc)) \<Longrightarrow>
   canPieceMoveTo g fr fc tr tc ic = Some False"
  by (subst canPieceMoveTo.simps) (simp add: Let_def split del: if_split)

lemma pawn_chain:
  "(if A then Some True
    else if B then Some True
    else if C then (if D then Some True else if E then Some True else Some False)
    else Some False) = Some (A \<or> B \<or> (C \<and> (D \<or> E)))"
  by simp

lemma canPieceMoveTo_pawn:
  assumes "type (board g (fr, fc)) = PAWN"
      and "color (board g (tr, tc)) \<noteq> color (board g (fr, fc))"
  shows "canPieceMoveTo g fr fc tr tc ic = Some (pawnRule (board g) (enPassantCol g) fr fc tr tc)"
  apply (subst canPieceMoveTo.simps)
  apply (simp only: Let_def assms PieceType.simps simp_thms if_True if_False pawnRule_def)
  apply (simp only: pawn_chain conj_assoc)
  done

lemma canPieceMoveTo_knight:
  "type (board g (fr, fc)) = KNIGHT \<Longrightarrow> color (board g (tr, tc)) \<noteq> color (board g (fr, fc)) \<Longrightarrow>
   canPieceMoveTo g fr fc tr tc ic =
     Some ((\<bar>tr - fr\<bar> = 2 \<and> \<bar>tc - fc\<bar> = 1) \<or> (\<bar>tr - fr\<bar> = 1 \<and> \<bar>tc - fc\<bar> = 2))"
  by (subst canPieceMoveTo.simps) (simp add: Let_def split del: if_split)

lemma canPieceMoveTo_king_raw:
  assumes "type (board g (fr, fc)) = KING"
      and "color (board g (tr, tc)) \<noteq> color (board g (fr, fc))"
  shows "canPieceMoveTo g fr fc tr tc True = Some (\<bar>tr - fr\<bar> \<le> 1 \<and> \<bar>tc - fc\<bar> \<le> 1)"
proof (cases "\<bar>tr - fr\<bar> \<le> 1 \<and> \<bar>tc - fc\<bar> \<le> 1")
  case True
  with assms show ?thesis
    by (subst canPieceMoveTo.simps) (simp add: Let_def split del: if_split)
next
  case False
  then have c: "(\<bar>tr - fr\<bar> \<le> 1 \<and> \<bar>tc - fc\<bar> \<le> 1) = False" by simp
  from assms(2) have co': "(color (board g (tr, tc)) = color (board g (fr, fc))) = False"
    by simp
  show ?thesis
    apply (subst canPieceMoveTo.simps)
    apply (simp only: Let_def assms(1) co' c PieceType.simps simp_thms if_True if_False)
    done
qed

lemma slider_chain:
  "(if T1 \<and> \<not> D then Some False
    else if T2 \<and> \<not> S then Some False
    else if T3 \<and> \<not> (D \<or> S) then Some False
    else X) =
   (if \<not> (T1 \<and> \<not> D) \<and> \<not> (T2 \<and> \<not> S) \<and> \<not> (T3 \<and> \<not> (D \<or> S)) then X else Some False)"
  by simp

lemma canPieceMoveTo_slider:
  assumes ty: "type (board g (fr, fc)) \<in> {BISHOP, ROOK, QUEEN}"
      and co: "color (board g (tr, tc)) \<noteq> color (board g (fr, fc))"
  shows "canPieceMoveTo g fr fc tr tc ic = Some (slideRule (board g) fr fc tr tc)"
proof -
  let ?p = "board g (fr, fc)"
  let ?D = "\<bar>tr - fr\<bar> = \<bar>tc - fc\<bar>" and ?S = "tr - fr = 0 \<or> tc - fc = 0"
  let ?G = "\<not> (type ?p = BISHOP \<and> \<not> ?D) \<and> \<not> (type ?p = ROOK \<and> \<not> ?S) \<and>
            \<not> (type ?p = QUEEN \<and> \<not> (?D \<or> ?S))"
  let ?X = "slidePath (board g)
           (fr + ((if tr - fr > 0 then 1 else 0) - (if tr - fr < 0 then 1 else 0)))
           (fc + ((if tc - fc > 0 then 1 else 0) - (if tc - fc < 0 then 1 else 0))) tr tc
           ((if tr - fr > 0 then 1 else 0) - (if tr - fr < 0 then 1 else 0))
           ((if tc - fc > 0 then 1 else 0) - (if tc - fc < 0 then 1 else 0))"
  from co have ne: "tr \<noteq> fr \<or> tc \<noteq> fc" by auto
  from ty have nots: "(type ?p = EMPTY) = False" "(type ?p = PAWN) = False"
      "(type ?p = KNIGHT) = False" "(type ?p = KING) = False"
    by auto
  from co have co': "(color (board g (tr, tc)) = color ?p) = False" by simp
  have unf: "canPieceMoveTo g fr fc tr tc ic = (if ?G then ?X else Some False)"
    apply (subst canPieceMoveTo.simps)
    apply (simp only: Let_def nots co' simp_thms if_False)
    apply (rule slider_chain)
    done
  show ?thesis
  proof (cases ?G)
    case True
    with ty have pat: "?D \<or> ?S" by auto
    have "?X = Some (clearN (board g) (fr + sgnStep (tr - fr)) (fc + sgnStep (tc - fc))
                   (sgnStep (tr - fr)) (sgnStep (tc - fc))
                   (nat (max \<bar>tr - fr\<bar> \<bar>tc - fc\<bar>) - 1))"
      using slidePath_slide [OF ne pat, of "board g"] unfolding sgnStep_def .
    with True unf show ?thesis
      by (simp add: slideRule_def Let_def del: One_nat_def)
  next
    case False
    with unf show ?thesis
      by (auto simp add: slideRule_def Let_def simp del: One_nat_def)
  qed
qed

lemma canPieceMoveTo_raw:
  "canPieceMoveTo g fr fc tr tc True = Some (rawMove (board g) (enPassantCol g) fr fc tr tc)"
proof (cases "type (board g (fr, fc)) = EMPTY \<or>
              color (board g (tr, tc)) = color (board g (fr, fc))")
  case True
  then show ?thesis
    using canPieceMoveTo_blocked [OF True] by (auto simp: rawMove_def Let_def)
next
  case False
  then have co: "color (board g (tr, tc)) \<noteq> color (board g (fr, fc))" by simp
  show ?thesis
  proof (cases "type (board g (fr, fc))")
    case EMPTY with False show ?thesis by simp
  next
    case PAWN
    with co canPieceMoveTo_pawn [OF PAWN co, of True] show ?thesis by (simp add: rawMove_def Let_def)
  next
    case KNIGHT
    with co canPieceMoveTo_knight [OF KNIGHT co, of True] show ?thesis by (simp add: rawMove_def Let_def)
  next
    case KING
    with co canPieceMoveTo_king_raw [OF KING co] show ?thesis by (simp add: rawMove_def Let_def)
  next
    case BISHOP
    then have "type (board g (fr, fc)) \<in> {BISHOP, ROOK, QUEEN}" by simp
    from canPieceMoveTo_slider [OF this co, of True] BISHOP co show ?thesis by (simp add: rawMove_def Let_def)
  next
    case ROOK
    then have "type (board g (fr, fc)) \<in> {BISHOP, ROOK, QUEEN}" by simp
    from canPieceMoveTo_slider [OF this co, of True] ROOK co show ?thesis by (simp add: rawMove_def Let_def)
  next
    case QUEEN
    then have "type (board g (fr, fc)) \<in> {BISHOP, ROOK, QUEEN}" by simp
    from canPieceMoveTo_slider [OF this co, of True] QUEEN co show ?thesis by (simp add: rawMove_def Let_def)
  qed
qed

lemma anyM_Some:
  "(\<And>x. x \<in> set xs \<Longrightarrow> f x = Some (P x)) \<Longrightarrow> anyM f xs = Some (list_ex P xs)"
  by (induction xs) (auto split: bool.splits)

lemma rawMove_epc:
  "type (b (fr, fc)) \<noteq> PAWN \<Longrightarrow> rawMove b epc fr fc tr tc = rawMove b 0 fr fc tr tc"
  by (simp add: rawMove_def Let_def)

lemma isSquareAttacked_eq:
  "isSquareAttacked g tr tc by = Some (attacked (board g) tr tc by)"
  unfolding attacked_def
  apply (subst isSquareAttacked.simps)
  apply (rule anyM_Some)
  apply (simp add: Let_def canPieceMoveTo_raw rawMove_epc [where epc = "enPassantCol g"])
  done

lemma castle_chain:
  "(Some f \<bind> (\<lambda>free. if \<not> free then Some False
      else Some a1 \<bind> (\<lambda>x1. if x1 then Some False
        else Some a2 \<bind> (\<lambda>x2. if x2 then Some False
          else Some a3 \<bind> (\<lambda>x3. if x3 then Some False else Some True)))))
   = Some (f \<and> \<not> a1 \<and> \<not> a2 \<and> \<not> a3)"
  by simp

lemma canPieceMoveTo_king_full:
  assumes ty: "type (board g (fr, fc)) = KING"
      and co: "color (board g (tr, tc)) \<noteq> color (board g (fr, fc))"
      and tc: "0 \<le> tc" "tc \<le> 7"
  shows "canPieceMoveTo g fr fc tr tc False =
         Some ((\<bar>tr - fr\<bar> \<le> 1 \<and> \<bar>tc - fc\<bar> \<le> 1) \<or> castleRule (board g) fr fc tr tc)"
proof -
  let ?p = "board g (fr, fc)"
  from co have co': "(color (board g (tr, tc)) = color ?p) = False" by simp
  show ?thesis
  proof (cases "\<bar>tr - fr\<bar> \<le> 1 \<and> \<bar>tc - fc\<bar> \<le> 1")
    case True
    then show ?thesis
      apply (subst canPieceMoveTo.simps)
      apply (simp only: Let_def ty co' PieceType.simps simp_thms if_True if_False)
      done
  next
    case far: False
    then have far': "(\<bar>tr - fr\<bar> \<le> 1 \<and> \<bar>tc - fc\<bar> \<le> 1) = False" by simp
    show ?thesis
    proof (cases "tr - fr = 0 \<and> \<bar>tc - fc\<bar> = 2 \<and> \<not> hasMoved ?p")
      case False
      then have g': "(tr - fr = 0 \<and> \<bar>tc - fc\<bar> = 2 \<and> \<not> hasMoved ?p) = False"
        by simp
      from False have "\<not> castleRule (board g) fr fc tr tc"
        by (auto simp: castleRule_def Let_def)
      then show ?thesis
        apply (subst canPieceMoveTo.simps)
        apply (simp only: Let_def ty co' far' g' PieceType.simps simp_thms if_True if_False)
        done
    next
      case guard: True
      then have g': "(tr - fr = 0 \<and> \<bar>tc - fc\<bar> = 2 \<and> \<not> hasMoved ?p) = True"
        by simp
      let ?rookCol = "if tc - fc > 0 then 7 else (0::int)"
      let ?step = "if tc - fc > 0 then 1 else (- 1::int)"
      show ?thesis
      proof (cases "type (board g (fr, ?rookCol)) = ROOK \<and> \<not> hasMoved (board g (fr, ?rookCol))")
        case False
        then have r': "(type (board g (fr, ?rookCol)) = ROOK \<and>
                        \<not> hasMoved (board g (fr, ?rookCol))) = False" by simp
        from False have "\<not> castleRule (board g) fr fc tr tc"
          by (auto simp: castleRule_def Let_def)
        then show ?thesis
          apply (subst canPieceMoveTo.simps)
          apply (simp only: Let_def ty co' far' g' r' PieceType.simps simp_thms if_True if_False)
          done
      next
        case rook: True
        then have r': "(type (board g (fr, ?rookCol)) = ROOK \<and>
                        \<not> hasMoved (board g (fr, ?rookCol))) = True" by simp
        let ?n = "nat \<bar>?rookCol - fc\<bar> - 1"
        have tgt: "?rookCol = (fc + ?step) + int ?n * ?step"
          using guard tc by (auto split: if_splits)
        have "castlePath (board g) fr (fc + ?step) ((fc + ?step) + int ?n * ?step) ?step
              = Some (clearN (board g) fr (fc + ?step) 0 ?step ?n)"
          by (rule castlePath_steps) simp
        with tgt have cp: "castlePath (board g) fr (fc + ?step) ?rookCol ?step
              = Some (clearN (board g) fr (fc + ?step) 0 ?step ?n)"
          by simp
        have res: "castleRule (board g) fr fc tr tc =
              (clearN (board g) fr (fc + ?step) 0 ?step ?n \<and>
               \<not> attacked (board g) fr fc (opponent (color ?p)) \<and>
               \<not> attacked (board g) fr (fc + ?step) (opponent (color ?p)) \<and>
               \<not> attacked (board g) tr tc (opponent (color ?p)))"
          using ty co guard rook by (simp add: castleRule_def Let_def del: One_nat_def)
        show ?thesis
          apply (subst canPieceMoveTo.simps)
          apply (simp only: Let_def ty co' far' g' r' cp isSquareAttacked_eq castle_chain res
                            PieceType.simps simp_thms if_True if_False)
          done
      qed
    qed
  qed
qed

lemma castleRule_king: "castleRule b fr fc tr tc \<Longrightarrow> type (b (fr, fc)) = KING"
  by (simp add: castleRule_def Let_def)

lemma canPieceMoveTo_full:
  assumes tc: "0 \<le> tc" "tc \<le> 7"
  shows "canPieceMoveTo g fr fc tr tc False =
         Some (fullMove (board g) (enPassantCol g) fr fc tr tc)"
proof (cases "type (board g (fr, fc)) = KING \<and>
              color (board g (tr, tc)) \<noteq> color (board g (fr, fc))")
  case True
  then show ?thesis
    using canPieceMoveTo_king_full [OF _ _ tc, where g = g and fr = fr and fc = fc and tr = tr]
    by (simp add: fullMove_def rawMove_def Let_def)
next
  case False
  show ?thesis
  proof (cases "type (board g (fr, fc)) = EMPTY \<or>
                color (board g (tr, tc)) = color (board g (fr, fc))")
    case True
    then show ?thesis
      using canPieceMoveTo_blocked [OF True]
      by (auto simp: fullMove_def rawMove_def castleRule_def Let_def)
  next
    case ok: False
    then have co: "color (board g (tr, tc)) \<noteq> color (board g (fr, fc))" by simp
    from False co have nk: "type (board g (fr, fc)) \<noteq> KING" by simp
    then have nc: "\<not> castleRule (board g) fr fc tr tc" using castleRule_king by blast
    show ?thesis
    proof (cases "type (board g (fr, fc))")
      case EMPTY with ok show ?thesis by simp
    next
      case PAWN
      with co nc canPieceMoveTo_pawn [OF PAWN co, of False] show ?thesis
        by (simp add: fullMove_def rawMove_def Let_def)
    next
      case KNIGHT
      with co nc canPieceMoveTo_knight [OF KNIGHT co, of False] show ?thesis
        by (simp add: fullMove_def rawMove_def Let_def)
    next
      case KING with nk show ?thesis by simp
    next
      case BISHOP
      then have "type (board g (fr, fc)) \<in> {BISHOP, ROOK, QUEEN}" by simp
      from canPieceMoveTo_slider [OF this co, of False] BISHOP co nc show ?thesis
        by (simp add: fullMove_def rawMove_def Let_def)
    next
      case ROOK
      then have "type (board g (fr, fc)) \<in> {BISHOP, ROOK, QUEEN}" by simp
      from canPieceMoveTo_slider [OF this co, of False] ROOK co nc show ?thesis
        by (simp add: fullMove_def rawMove_def Let_def)
    next
      case QUEEN
      then have "type (board g (fr, fc)) \<in> {BISHOP, ROOK, QUEEN}" by simp
      from canPieceMoveTo_slider [OF this co, of False] QUEEN co nc show ?thesis
        by (simp add: fullMove_def rawMove_def Let_def)
    qed
  qed
qed

section \<open>Check detection and the move generator as total functions\<close>

lemma findKing_eq: "findKing g c = kingSquare (board g) c"
  by (simp add: findKing_def kingSquare_def)

lemma isInCheck_eq: "isInCheck g c = inCheck (board g) c"
  by (cases "kingSquare (board g) c")
     (simp_all add: isInCheck_def inCheck_def findKing_eq isSquareAttacked_eq)

lemma probe_restore:
  "(b((tr, tc) := b (fr, fc), (fr, fc) := emptyPiece))((fr, fc) := b (fr, fc), (tr, tc) := b (tr, tc)) = b"
  by (rule ext) auto

lemma testMove_eq:
  "testMove g fr fc tr tc = map_option (\<lambda>ok. (ok, g)) (moveProbe (board g) fr fc tr tc)"
proof -
  have r: "g\<lparr>board := (board g)((tr, tc) := board g (fr, fc), (fr, fc) := emptyPiece)\<rparr>
            \<lparr>board := (board g)((tr, tc) := board g (fr, fc), (fr, fc) := emptyPiece,
                                (fr, fc) := board g (fr, fc), (tr, tc) := board g (tr, tc))\<rparr> = g"
    using probe_restore [of "board g" tr tc fr fc] by simp
  show ?thesis
    by (cases "inCheck (probeBoard (board g) fr fc tr tc) (color (board g (fr, fc)))")
       (simp_all add: testMove_def Let_def isInCheck_eq moveProbe_def probeBoard_def r)
qed

lemma foldM_collect:
  "(\<And>x acc. x \<in> set xs \<Longrightarrow> step x (acc, g) = map_option (\<lambda>ys. (acc @ ys, g)) (f x)) \<Longrightarrow>
   foldM step xs (acc, g) = map_option (\<lambda>ys. (acc @ ys, g)) (collect f xs)"
proof (induction xs arbitrary: acc)
  case Nil
  show ?case by simp
next
  case (Cons x xs)
  show ?case
  proof (cases "f x")
    case None
    with Cons.prems [of x acc] show ?thesis by simp
  next
    case (Some ys)
    have "foldM step xs (acc @ ys, g) = map_option (\<lambda>zs. ((acc @ ys) @ zs, g)) (collect f xs)"
      by (rule Cons.IH) (simp add: Cons.prems)
    with Some Cons.prems [of x acc] show ?thesis
      by (cases "collect f xs") simp_all
  qed
qed

lemma set_squares: "set squares = {(r, c). 0 \<le> r \<and> r \<le> 7 \<and> 0 \<le> c \<and> c \<le> 7}"
  by (auto simp: squares_def)

lemma legalTarget_eq:
  assumes "dst \<in> set squares"
  shows "legalTarget c src dst (acc, g) = map_option (\<lambda>ys. (acc @ ys, g)) (targetMoves g c src dst)"
proof -
  from assms have tc: "0 \<le> snd dst" "snd dst \<le> 7" by (auto simp: set_squares)
  show ?thesis
    by (cases "moveProbe (board g) (fst src) (snd src) (fst dst) (snd dst)")
       (simp_all add: legalTarget_def targetMoves_def Let_def canPieceMoveTo_full [OF tc] testMove_eq)
qed

lemma legalSource_eq:
  "legalSource c src (acc, g) = map_option (\<lambda>ys. (acc @ ys, g)) (sourceMoves g c src)"
proof (cases "color (board g src) = c")
  case True
  have "foldM (legalTarget c src) squares (acc, g)
        = map_option (\<lambda>ys. (acc @ ys, g)) (collect (targetMoves g c src) squares)"
    by (rule foldM_collect) (rule legalTarget_eq)
  with True show ?thesis by (simp add: legalSource_def sourceMoves_def)
next
  case False
  then show ?thesis by (simp add: legalSource_def sourceMoves_def)
qed

lemma getLegalMoves_eq:
  "getLegalMoves g c = map_option (\<lambda>ms. (ms, g)) (legalMoves g c)"
proof -
  have "foldM (legalSource c) squares ([], g)
        = map_option (\<lambda>ys. ([] @ ys, g)) (collect (sourceMoves g c) squares)"
    by (rule foldM_collect) (rule legalSource_eq)
  then show ?thesis by (simp add: getLegalMoves_def legalMoves_def)
qed

lemma collect_defined:
  "(\<And>x. x \<in> set xs \<Longrightarrow> f x \<noteq> None) \<Longrightarrow> \<exists>ys. collect f xs = Some ys"
proof (induction xs)
  case Nil
  show ?case by simp
next
  case (Cons x xs)
  then obtain ys where "collect f xs = Some ys" by auto
  moreover from Cons.prems [of x] obtain zs where "f x = Some zs" by auto
  ultimately show ?case by simp
qed

lemma collect_member:
  "collect f xs = Some ys \<Longrightarrow>
   z \<in> set ys \<longleftrightarrow> (\<exists>x \<in> set xs. \<exists>zs. f x = Some zs \<and> z \<in> set zs)"
proof (induction xs arbitrary: ys)
  case Nil
  then show ?case by simp
next
  case (Cons x xs)
  from Cons.prems obtain zs ws where fx: "f x = Some zs" and rest: "collect f xs = Some ws"
    and ys: "ys = zs @ ws"
    by (auto split: option.splits)
  from Cons.IH [OF rest] fx ys show ?case by auto
qed

lemma collect_each:
  "collect f xs = Some ys \<Longrightarrow> x \<in> set xs \<Longrightarrow> \<exists>zs. f x = Some zs"
  by (induction xs arbitrary: ys) (auto split: option.splits)

lemma find_append:
  "find P (xs @ ys) = (case find P xs of None \<Rightarrow> find P ys | Some x \<Rightarrow> Some x)"
  by (induction xs) auto

lemma collect_find:
  assumes "collect f xs = Some ys"
      and "\<And>x zs z. x \<in> set xs \<Longrightarrow> x \<noteq> x0 \<Longrightarrow> f x = Some zs \<Longrightarrow> z \<in> set zs \<Longrightarrow> \<not> P z"
      and "x0 \<in> set xs"
      and "f x0 = Some zs0"
  shows "find P ys = find P zs0"
  using assms(1,2,3)
proof (induction xs arbitrary: ys)
  case Nil
  then show ?case by simp
next
  case (Cons x xs)
  from Cons.prems(1) obtain zs ws where fx: "f x = Some zs" and rest: "collect f xs = Some ws"
    and ys: "ys = zs @ ws"
    by (auto split: option.splits)
  have others: "\<And>y vs w. y \<in> set xs \<Longrightarrow> y \<noteq> x0 \<Longrightarrow> f y = Some vs \<Longrightarrow> w \<in> set vs \<Longrightarrow> \<not> P w"
    using Cons.prems(2) by auto
  have tail: "find P zs0 = None \<Longrightarrow> find P ws = None"
  proof -
    assume none: "find P zs0 = None"
    have "\<And>w. w \<in> set ws \<Longrightarrow> \<not> P w"
    proof -
      fix w assume "w \<in> set ws"
      then obtain y vs where y: "y \<in> set xs" "f y = Some vs" "w \<in> set vs"
        using collect_member [OF rest, of w] by auto
      show "\<not> P w"
      proof (cases "y = x0")
        case True
        with y assms(4) have "w \<in> set zs0" by simp
        with none show ?thesis by (simp add: find_None_iff)
      next
        case False
        with others y show ?thesis by blast
      qed
    qed
    then show "find P ws = None" by (simp add: find_None_iff)
  qed
  show ?case
  proof (cases "x = x0")
    case True
    with fx assms(4) have zs: "zs = zs0" by simp
    show ?thesis
      using tail by (cases "find P zs0") (simp_all add: ys zs find_append)
  next
    case False
    have "\<And>z. z \<in> set zs \<Longrightarrow> \<not> P z"
      using Cons.prems(2) [of x zs] fx False by simp
    then have nz: "find P zs = None" by (simp add: find_None_iff)
    from False Cons.prems(3) have x0: "x0 \<in> set xs" by simp
    have "find P ws = find P zs0"
      by (rule Cons.IH [OF rest _ x0]) (use others in blast)
    with nz show ?thesis by (simp add: ys find_append)
  qed
qed

lemma emitMoves_squares:
  "m \<in> set (emitMoves g c r col tr tc) \<Longrightarrow>
   fromRow m = r \<and> fromCol m = col \<and> toRow m = tr \<and> toCol m = tc"
  by (auto simp: emitMoves_def taggedMove_def newMove_def Let_def split: if_splits)

lemma emitMoves_tags:
  "m \<in> set (emitMoves g c r col tr tc) \<Longrightarrow>
   isCastling m = (type (board g (r, col)) = KING \<and> \<bar>tc - col\<bar> = 2) \<and>
   isEnPassant m = (type (board g (r, col)) = PAWN \<and> tc = enPassantCol g \<and>
                    tr = (if c = WHITE then 2 else 5))"
  by (auto simp: emitMoves_def taggedMove_def newMove_def Let_def split: if_splits)

lemma emitMoves_promotion:
  "m \<in> set (emitMoves g c r col tr tc) \<Longrightarrow>
   (if type (board g (r, col)) = PAWN \<and> (tr = 0 \<or> tr = 7)
    then promotion m \<in> {QUEEN, ROOK, BISHOP, KNIGHT} else promotion m = EMPTY)"
  by (auto simp: emitMoves_def taggedMove_def newMove_def Let_def split: if_splits)

lemma emitMoves_first:
  "\<exists>rest. emitMoves g c r col tr tc =
     (taggedMove g c r col tr tc)
       \<lparr>promotion := (if type (board g (r, col)) = PAWN \<and> (tr = 0 \<or> tr = 7)
                       then QUEEN else EMPTY)\<rparr> # rest"
  by (simp add: emitMoves_def taggedMove_def newMove_def Let_def)

lemma targetMoves_member:
  "targetMoves g c src dst = Some zs \<Longrightarrow>
   z \<in> set zs \<longleftrightarrow>
     (fullMove (board g) (enPassantCol g) (fst src) (snd src) (fst dst) (snd dst) \<and>
      moveProbe (board g) (fst src) (snd src) (fst dst) (snd dst) = Some True \<and>
      z \<in> set (emitMoves g c (fst src) (snd src) (fst dst) (snd dst)))"
  by (auto simp: targetMoves_def split: if_splits)

lemma sourceMoves_member:
  assumes "sourceMoves g c src = Some zs"
  shows "z \<in> set zs \<longleftrightarrow>
     (\<exists>dst \<in> set squares. legalAt g c src dst \<and>
        z \<in> set (emitMoves g c (fst src) (snd src) (fst dst) (snd dst)))"
proof (cases "color (board g src) = c")
  case True
  with assms have col: "collect (targetMoves g c src) squares = Some zs"
    by (simp add: sourceMoves_def)
  show ?thesis
    unfolding collect_member [OF col, of z] legalAt_def
    using True targetMoves_member [of g c src _ _ z] collect_each [OF col]
    by (metis (no_types, lifting))
next
  case False
  with assms show ?thesis by (auto simp: sourceMoves_def legalAt_def)
qed

lemma legalMoves_member:
  assumes "legalMoves g c = Some ms"
  shows "m \<in> set ms \<longleftrightarrow>
     (\<exists>src \<in> set squares. \<exists>dst \<in> set squares. legalAt g c src dst \<and>
        m \<in> set (emitMoves g c (fst src) (snd src) (fst dst) (snd dst)))"
proof -
  from assms have col: "collect (sourceMoves g c) squares = Some ms"
    by (simp add: legalMoves_def)
  show ?thesis
    unfolding collect_member [OF col, of m]
    using sourceMoves_member [of g c _ _ m] collect_each [OF col]
    by (metis (no_types, lifting))
qed

section \<open>What \<open>makeMove\<close> and \<open>getGameStatus\<close> do to the game\<close>

lemma board_steps [simp]:
  "board (updateClock p m g) = board g"
  "board (trackEnPassant p m g) = board g"
  "board (countPosition g) = board g"
  "board (addMoveToHistory g m) = board g"
  by (simp_all add: updateClock_def trackEnPassant_def countPosition_def addMoveToHistory_def Let_def)

lemma board_makeMove: "board (makeMove g m) = moveBoard (board g) m"
  by (simp add: makeMove_def moveBoard_def Let_def removeEnPassantPawn_def castleRook_def
        movePiece_def promote_def)

lemma currentPlayer_steps [simp]:
  "currentPlayer (updateClock p m g) = currentPlayer g"
  "currentPlayer (removeEnPassantPawn p m g) = currentPlayer g"
  "currentPlayer (trackEnPassant p m g) = currentPlayer g"
  "currentPlayer (castleRook m g) = currentPlayer g"
  "currentPlayer (movePiece p m g) = currentPlayer g"
  "currentPlayer (promote m g) = currentPlayer g"
  "currentPlayer (countPosition g) = currentPlayer g"
  "currentPlayer (addMoveToHistory g m) = currentPlayer g"
  by (simp_all add: updateClock_def removeEnPassantPawn_def trackEnPassant_def castleRook_def
        movePiece_def promote_def countPosition_def addMoveToHistory_def Let_def)

lemma currentPlayer_makeMove: "currentPlayer (makeMove g m) = opponent (currentPlayer g)"
  by (simp add: makeMove_def Let_def)

lemma enPassant_steps [simp]:
  "enPassantCol (castleRook m g) = enPassantCol g"
  "enPassantCol (movePiece p m g) = enPassantCol g"
  "enPassantCol (promote m g) = enPassantCol g"
  "enPassantCol (countPosition g) = enPassantCol g"
  "enPassantRow (castleRook m g) = enPassantRow g"
  "enPassantRow (movePiece p m g) = enPassantRow g"
  "enPassantRow (promote m g) = enPassantRow g"
  "enPassantRow (countPosition g) = enPassantRow g"
  "enPassantCol (trackEnPassant p m g) =
     (if type p = PAWN \<and> \<bar>toRow m - fromRow m\<bar> = 2 then toCol m else - 1)"
  "enPassantRow (trackEnPassant p m g) =
     (if type p = PAWN \<and> \<bar>toRow m - fromRow m\<bar> = 2 then toRow m else - 1)"
  by (simp_all add: trackEnPassant_def castleRook_def
        movePiece_def promote_def countPosition_def Let_def)

lemma enPassantCol_makeMove:
  "enPassantCol (makeMove g m) =
     (if type (board g (fromRow m, fromCol m)) = PAWN \<and> \<bar>toRow m - fromRow m\<bar> = 2
      then toCol m else - 1)"
  by (simp add: makeMove_def Let_def)

lemma enPassantRow_makeMove:
  "enPassantRow (makeMove g m) =
     (if type (board g (fromRow m, fromCol m)) = PAWN \<and> \<bar>toRow m - fromRow m\<bar> = 2
      then toRow m else - 1)"
  by (simp add: makeMove_def Let_def)

lemma stacks_steps [simp]:
  "undoStack (updateClock p m g) = undoStack g"
  "undoStack (removeEnPassantPawn p m g) = undoStack g"
  "undoStack (trackEnPassant p m g) = undoStack g"
  "undoStack (castleRook m g) = undoStack g"
  "undoStack (movePiece p m g) = undoStack g"
  "undoStack (promote m g) = undoStack g"
  "undoStack (countPosition g) = undoStack g"
  "undoStack (addMoveToHistory g m) = undoStack g"
  "redoStack (updateClock p m g) = redoStack g"
  "redoStack (removeEnPassantPawn p m g) = redoStack g"
  "redoStack (trackEnPassant p m g) = redoStack g"
  "redoStack (castleRook m g) = redoStack g"
  "redoStack (movePiece p m g) = redoStack g"
  "redoStack (promote m g) = redoStack g"
  "redoStack (countPosition g) = redoStack g"
  "redoStack (addMoveToHistory g m) = redoStack g"
  by (simp_all add: updateClock_def removeEnPassantPawn_def trackEnPassant_def castleRook_def
        movePiece_def promote_def countPosition_def addMoveToHistory_def Let_def)

lemma undoStack_makeMove: "undoStack (makeMove g m) = getState g # undoStack g"
  by (simp add: makeMove_def Let_def)

lemma redoStack_makeMove: "redoStack (makeMove g m) = []"
  by (simp add: makeMove_def Let_def)

lemma getPositionKey_cong:
  "board g = board g' \<Longrightarrow> currentPlayer g = currentPlayer g' \<Longrightarrow>
   getPositionKey g = getPositionKey g'"
  by (simp add: getPositionKey_def)

lemma keyed_countPosition: "keyed (countPosition g)"
proof -
  have "getPositionKey (countPosition g) = getPositionKey g"
    by (rule getPositionKey_cong) simp_all
  then show ?thesis
    by (simp add: keyed_def) (simp add: countPosition_def Let_def)
qed

lemma keyed_makeMove: "keyed (makeMove g m)"
  by (simp add: makeMove_def Let_def keyed_countPosition)

lemma keyed_newGame: "keyed newGame"
  by (simp add: newGame_def keyed_countPosition)

lemma keyed_getState: "keyed (getState g) = keyed g"
proof -
  have "getPositionKey (getState g) = getPositionKey g"
    by (rule getPositionKey_cong) (simp_all add: getState_def)
  then show ?thesis by (simp add: keyed_def getState_def)
qed

lemma keyed_setState: "keyed (setState g s) = keyed s"
proof -
  have "getPositionKey (setState g s) = getPositionKey s"
    by (rule getPositionKey_cong) (simp_all add: setState_def)
  then show ?thesis by (simp add: keyed_def setState_def)
qed

lemma countAt_keyed: "keyed g \<Longrightarrow> snd (countAt (positionCount g) (getPositionKey g)) = positionCount g"
  by (auto simp: keyed_def countAt_def)

lemma getGameStatus_keyed:
  assumes "keyed g" and "getGameStatus g = Some (s, g')"
  shows "g' = g"
proof -
  have g1: "g\<lparr>positionCount := snd (countAt (positionCount g) (getPositionKey g))\<rparr> = g"
    using countAt_keyed [OF assms(1)] by simp
  from assms(2) show ?thesis
    unfolding getGameStatus_def Let_def g1
    by (auto simp: getLegalMoves_eq bind_eq_Some_conv split: if_splits)
qed

lemma printState_keyed: "keyed g \<Longrightarrow> printState g = Some g' \<Longrightarrow> g' = g"
  using getGameStatus_keyed by (auto simp: printState_def)

section \<open>Undo and redo\<close>

text \<open>
  Claim C3. Whenever the undo stack is not empty, \<open>undo()\<close> followed at once by \<open>redo()\<close>
  gives back the position it started from in every component: board, side to move,
  en-passant column and row, halfmove clock and repetition counts. Both snapshot stacks
  are as before, too.
\<close>

theorem undo_redo_restores:
  assumes "undoStack g \<noteq> []"
  shows "board (redo (undo g)) = board g \<and>
         currentPlayer (redo (undo g)) = currentPlayer g \<and>
         enPassantCol (redo (undo g)) = enPassantCol g \<and>
         enPassantRow (redo (undo g)) = enPassantRow g \<and>
         halfMoveClock (redo (undo g)) = halfMoveClock g \<and>
         positionCount (redo (undo g)) = positionCount g \<and>
         undoStack (redo (undo g)) = undoStack g \<and>
         redoStack (redo (undo g)) = redoStack g"
proof -
  from assms obtain prev rest where st: "undoStack g = prev # rest"
    by (cases "undoStack g") auto
  have u: "redoStack (undo g) = getState g # redoStack g" "undoStack (undo g) = rest"
          "getState (undo g) = prev"
    using st by (auto simp: undo_def Let_def setState_def getState_def split: option.splits)
  have r: "getState (redo (undo g)) = getState g"
          "undoStack (redo (undo g)) = prev # rest"
          "redoStack (redo (undo g)) = redoStack g"
    using u by (auto simp: redo_def Let_def setState_def getState_def split: option.splits)
  from r(1) have "board (redo (undo g)) = board g"
    "currentPlayer (redo (undo g)) = currentPlayer g"
    "enPassantCol (redo (undo g)) = enPassantCol g"
    "enPassantRow (redo (undo g)) = enPassantRow g"
    "halfMoveClock (redo (undo g)) = halfMoveClock g"
    "positionCount (redo (undo g)) = positionCount g"
    by (simp_all add: getState_def)
  with r st show ?thesis by simp
qed

text \<open>The position after \<open>e2e4\<close> from the start has one snapshot to undo.\<close>

theorem undo_redo_restores_witness:
  "undoStack (makeMove newGame (newMove 6 4 4 4)) \<noteq> [] \<and>
   board (redo (undo (makeMove newGame (newMove 6 4 4 4)))) = board (makeMove newGame (newMove 6 4 4 4)) \<and>
   positionCount (redo (undo (makeMove newGame (newMove 6 4 4 4))))
     = positionCount (makeMove newGame (newMove 6 4 4 4))"
proof -
  have h: "undoStack (makeMove newGame (newMove 6 4 4 4)) \<noteq> []"
    by (simp add: undoStack_makeMove)
  from undo_redo_restores [OF h] h show ?thesis by simp
qed

section \<open>Game status\<close>

lemma minorLoop_eq:
  "minorLoop b xs k =
     (list_all (\<lambda>sq. \<not> heavy (b sq)) xs \<and>
      k + int (length (filter (\<lambda>sq. minorPiece (b sq)) xs)) \<le> 1)"
proof (induction xs arbitrary: k)
  case Nil
  show ?case by simp
next
  case (Cons sq xs)
  show ?case
    by (cases "type (b sq)") (simp_all add: Cons.IH heavy_def minorPiece_def)
qed

lemma legalMoves_positionCount [simp]:
  "legalMoves (g\<lparr>positionCount := pc\<rparr>) c = legalMoves g c"
proof -
  have "\<And>src. targetMoves (g\<lparr>positionCount := pc\<rparr>) c src = targetMoves g c src"
    by (rule ext) (simp add: targetMoves_def emitMoves_def taggedMove_def Let_def cong: if_cong)
  then have "sourceMoves (g\<lparr>positionCount := pc\<rparr>) c = sourceMoves g c"
    by (intro ext) (simp add: sourceMoves_def)
  then show ?thesis by (simp add: legalMoves_def)
qed

lemma insufficientMaterial_positionCount [simp]:
  "insufficientMaterial (g\<lparr>positionCount := pc\<rparr>) = insufficientMaterial g"
  by (simp add: insufficientMaterial_def)

lemma statusOf_eq:
  "statusOf g =
     (if repetitions g \<ge> 3 then Some ''draw (threefold repetition)''
      else if halfMoveClock g \<ge> 100 then Some ''draw (50-move rule)''
      else if insufficientMaterial g then Some ''draw (insufficient material)''
      else moveStatus g)"
proof -
  let ?g1 = "g\<lparr>positionCount := snd (countAt (positionCount g) (getPositionKey g))\<rparr>"
  have lm: "getLegalMoves ?g1 (currentPlayer ?g1) = map_option (\<lambda>ms. (ms, ?g1)) (legalMoves g (currentPlayer g))"
    by (simp add: getLegalMoves_eq)
  have ck: "isInCheck ?g1 (currentPlayer g) = inCheck (board g) (currentPlayer g)"
    by (simp add: isInCheck_eq)
  consider (rep) "repetitions g \<ge> 3"
    | (fifty) "\<not> repetitions g \<ge> 3" "halfMoveClock g \<ge> 100"
    | (mat) "\<not> repetitions g \<ge> 3" "\<not> halfMoveClock g \<ge> 100" "insufficientMaterial g"
    | (mv) "\<not> repetitions g \<ge> 3" "\<not> halfMoveClock g \<ge> 100" "\<not> insufficientMaterial g"
    by blast
  then show ?thesis
  proof cases
    case rep
    then show ?thesis
      by (simp add: statusOf_def getGameStatus_def Let_def repetitions_def)
  next
    case fifty
    then show ?thesis
      by (simp add: statusOf_def getGameStatus_def Let_def repetitions_def)
  next
    case mat
    then show ?thesis
      by (simp add: statusOf_def getGameStatus_def Let_def repetitions_def)
  next
    case mv
    then show ?thesis
      by (cases "legalMoves g (currentPlayer g)"; cases "inCheck (board g) (currentPlayer g)")
         (simp_all add: statusOf_def getGameStatus_def Let_def repetitions_def moveStatus_def
            lm getLegalMoves_eq ck isInCheck_eq)
  qed
qed

lemma legalMoves_cong:
  assumes "board g = board g'" and "enPassantCol g = enPassantCol g'"
  shows "legalMoves g c = legalMoves g' c"
proof -
  have "\<And>src. targetMoves g c src = targetMoves g' c src"
    by (rule ext) (simp add: assms targetMoves_def emitMoves_def taggedMove_def Let_def cong: if_cong)
  then have "sourceMoves g c = sourceMoves g' c"
    by (intro ext) (simp add: assms sourceMoves_def)
  then show ?thesis by (simp add: legalMoves_def)
qed

lemma legalMoves_bare: "legalMoves g c = legalMoves (bare (board g) (enPassantCol g)) c"
  by (rule legalMoves_cong) (simp_all add: bare_def)

text \<open>
  Claim C2. \<open>getGameStatus\<close> tests repetition first, then the 50-move clock, then
  insufficient material, and only then classifies by legal moves and check
  (\<open>moveStatus\<close>). So a position whose key has been counted three times is a draw by
  repetition whatever the move-based classification would say.
\<close>

theorem status_order:
  "(repetitions g \<ge> 3 \<longrightarrow> statusOf g = Some ''draw (threefold repetition)'') \<and>
   (repetitions g < 3 \<and> halfMoveClock g \<ge> 100 \<longrightarrow> statusOf g = Some ''draw (50-move rule)'') \<and>
   (repetitions g < 3 \<and> halfMoveClock g < 100 \<and> insufficientMaterial g \<longrightarrow>
      statusOf g = Some ''draw (insufficient material)'') \<and>
   (repetitions g < 3 \<and> halfMoveClock g < 100 \<and> \<not> insufficientMaterial g \<longrightarrow>
      statusOf g = moveStatus g)"
  by (simp add: statusOf_eq)

lemma mateGame_fields:
  "board mateGame = mateBoard" "enPassantCol mateGame = - 1" "currentPlayer mateGame = WHITE"
  by (simp_all add: mateGame_def bare_def Let_def)

lemma mateGame_repetitions: "repetitions mateGame = 3"
proof -
  have "getPositionKey mateGame = getPositionKey ((bare mateBoard (- 1))\<lparr>currentPlayer := WHITE\<rparr>)"
    by (rule getPositionKey_cong) (simp_all add: mateGame_def Let_def)
  then show ?thesis
    by (simp add: repetitions_def countAt_def) (simp add: mateGame_def Let_def)
qed

lemma mateGame_moves: "legalMoves mateGame WHITE = Some []"
  unfolding legalMoves_bare [of mateGame] mateGame_fields by code_simp

lemma mateGame_check: "inCheck mateBoard WHITE = Some True"
  by code_simp

text \<open>
  A position counted three times in which White, to move, is in check and has no legal
  move: the classification by moves says checkmate, the status is the repetition draw.
\<close>

theorem status_order_witness:
  "repetitions mateGame \<ge> 3 \<and>
   getLegalMoves mateGame (currentPlayer mateGame) = Some ([], mateGame) \<and>
   isInCheck mateGame (currentPlayer mateGame) = Some True \<and>
   moveStatus mateGame = Some ''checkmate'' \<and>
   statusOf mateGame = Some ''draw (threefold repetition)''"
proof -
  have r: "repetitions mateGame \<ge> 3" by (simp add: mateGame_repetitions)
  have m: "getLegalMoves mateGame (currentPlayer mateGame) = Some ([], mateGame)"
    by (simp add: getLegalMoves_eq mateGame_fields mateGame_moves)
  have c: "isInCheck mateGame (currentPlayer mateGame) = Some True"
    by (simp add: isInCheck_eq mateGame_fields mateGame_check)
  have s: "moveStatus mateGame = Some ''checkmate''"
    by (simp add: moveStatus_def m c)
  from status_order [of mateGame] r have "statusOf mateGame = Some ''draw (threefold repetition)''"
    by blast
  with r m c s show ?thesis by blast
qed

text \<open>
  Claim C7. \<open>insufficientMaterial\<close> holds exactly when no pawn, rook or queen is on the
  board and at most one bishop or knight in total is (kings and empty squares do not
  count); and the status is the insufficient-material draw exactly when, in addition,
  neither the repetition nor the 50-move test fired before it.
\<close>

theorem insufficientMaterial_iff:
  "(insufficientMaterial g \<longleftrightarrow>
      (\<forall>sq \<in> set squares. type (board g sq) \<notin> {PAWN, ROOK, QUEEN}) \<and>
      length (filter (\<lambda>sq. type (board g sq) \<in> {BISHOP, KNIGHT}) squares) \<le> 1) \<and>
   (statusOf g = Some ''draw (insufficient material)'' \<longleftrightarrow>
      repetitions g < 3 \<and> halfMoveClock g < 100 \<and> insufficientMaterial g)"
proof
  have h: "(\<lambda>sq. \<not> heavy (board g sq)) = (\<lambda>sq. type (board g sq) \<notin> {PAWN, ROOK, QUEEN})"
    by (auto simp: heavy_def)
  have m: "(\<lambda>sq. minorPiece (board g sq)) = (\<lambda>sq. type (board g sq) \<in> {BISHOP, KNIGHT})"
    by (auto simp: minorPiece_def)
  show "insufficientMaterial g \<longleftrightarrow>
      (\<forall>sq \<in> set squares. type (board g sq) \<notin> {PAWN, ROOK, QUEEN}) \<and>
      length (filter (\<lambda>sq. type (board g sq) \<in> {BISHOP, KNIGHT}) squares) \<le> 1"
    unfolding insufficientMaterial_def minorLoop_eq h m by (simp add: list_all_iff)
next
  have "moveStatus g \<noteq> Some ''draw (insufficient material)''"
    by (auto simp: moveStatus_def bind_eq_Some_conv)
  then show "statusOf g = Some ''draw (insufficient material)'' \<longleftrightarrow>
      repetitions g < 3 \<and> halfMoveClock g < 100 \<and> insufficientMaterial g"
    by (simp add: statusOf_eq)
qed

text \<open>
  King and bishop against king, and king and knight against king, are insufficient;
  king and two bishops against king is not.
\<close>

theorem insufficientMaterial_iff_witness:
  "insufficientMaterial (bare kbkBoard (- 1)) \<and>
   insufficientMaterial (bare knkBoard (- 1)) \<and>
   \<not> insufficientMaterial (bare kbbkBoard (- 1)) \<and>
   statusOf (bare kbkBoard (- 1)) = Some ''draw (insufficient material)'' \<and>
   statusOf (bare kbbkBoard (- 1)) \<noteq> Some ''draw (insufficient material)''"
proof -
  have b: "board (bare kbkBoard (- 1)) = kbkBoard" "board (bare knkBoard (- 1)) = knkBoard"
          "board (bare kbbkBoard (- 1)) = kbbkBoard"
    by (simp_all add: bare_def)
  have r: "\<And>b. repetitions (bare b (- 1)) < 3" "\<And>b. halfMoveClock (bare b (- 1)) < 100"
    by (simp_all add: repetitions_def countAt_def bare_def)
  have k1: "(\<forall>sq \<in> set squares. type (kbkBoard sq) \<notin> {PAWN, ROOK, QUEEN}) \<and>
            length (filter (\<lambda>sq. type (kbkBoard sq) \<in> {BISHOP, KNIGHT}) squares) \<le> 1"
    by code_simp
  have k2: "(\<forall>sq \<in> set squares. type (knkBoard sq) \<notin> {PAWN, ROOK, QUEEN}) \<and>
            length (filter (\<lambda>sq. type (knkBoard sq) \<in> {BISHOP, KNIGHT}) squares) \<le> 1"
    by code_simp
  have k3: "\<not> length (filter (\<lambda>sq. type (kbbkBoard sq) \<in> {BISHOP, KNIGHT}) squares) \<le> 1"
    by code_simp
  have i1: "insufficientMaterial (bare kbkBoard (- 1))"
    using insufficientMaterial_iff [of "bare kbkBoard (- 1)"] k1 unfolding b by blast
  have i2: "insufficientMaterial (bare knkBoard (- 1))"
    using insufficientMaterial_iff [of "bare knkBoard (- 1)"] k2 unfolding b by blast
  have i3: "\<not> insufficientMaterial (bare kbbkBoard (- 1))"
    using insufficientMaterial_iff [of "bare kbbkBoard (- 1)"] k3 unfolding b by blast
  have s1: "statusOf (bare kbkBoard (- 1)) = Some ''draw (insufficient material)''"
    using insufficientMaterial_iff [of "bare kbkBoard (- 1)"] i1 r by blast
  have s3: "statusOf (bare kbbkBoard (- 1)) \<noteq> Some ''draw (insufficient material)''"
    using insufficientMaterial_iff [of "bare kbbkBoard (- 1)"] i3 by blast
  from i1 i2 i3 s1 s3 show ?thesis by blast
qed

section \<open>When the move generator has a result\<close>

lemma kingSquare_Some:
  "kingSquare b c \<noteq> None \<longleftrightarrow> (\<exists>k \<in> set squares. type (b k) = KING \<and> color (b k) = c)"
  by (auto simp: kingSquare_def find_None_iff)

lemma fullMove_colors:
  "fullMove b epc fr fc tr tc \<Longrightarrow> color (b (tr, tc)) \<noteq> color (b (fr, fc))"
  by (auto simp: fullMove_def rawMove_def castleRule_def Let_def)

lemma kingSquare_probe:
  assumes k: "kingSquare b c \<noteq> None"
      and src: "color (b (fr, fc)) = c"
      and dst: "color (b (tr, tc)) \<noteq> c"
      and on: "(tr, tc) \<in> set squares"
  shows "kingSquare (probeBoard b fr fc tr tc) c \<noteq> None"
proof -
  from k obtain k0 where k0: "k0 \<in> set squares" "type (b k0) = KING" "color (b k0) = c"
    unfolding kingSquare_Some by blast
  from src dst have ne: "(tr, tc) \<noteq> (fr, fc)" by auto
  show ?thesis
  proof (cases "k0 = (fr, fc)")
    case True
    with k0 ne have "type (probeBoard b fr fc tr tc (tr, tc)) = KING"
                    "color (probeBoard b fr fc tr tc (tr, tc)) = c"
      by (auto simp: probeBoard_def)
    with on show ?thesis unfolding kingSquare_Some by blast
  next
    case False
    from k0 dst have "k0 \<noteq> (tr, tc)" by auto
    with False k0 have "type (probeBoard b fr fc tr tc k0) = KING"
                       "color (probeBoard b fr fc tr tc k0) = c"
      by (auto simp: probeBoard_def)
    with k0(1) show ?thesis unfolding kingSquare_Some by blast
  qed
qed

lemma legalMoves_defined:
  assumes "kingSquare (board g) c \<noteq> None"
  shows "\<exists>ms. legalMoves g c = Some ms"
  unfolding legalMoves_def
proof (rule collect_defined)
  fix src assume "src \<in> set squares"
  show "sourceMoves g c src \<noteq> None"
  proof (cases "color (board g src) = c")
    case False
    then show ?thesis by (simp add: sourceMoves_def)
  next
    case True
    have "\<exists>ys. collect (targetMoves g c src) squares = Some ys"
    proof (rule collect_defined)
      fix dst assume dst: "dst \<in> set squares"
      show "targetMoves g c src dst \<noteq> None"
      proof (cases "fullMove (board g) (enPassantCol g) (fst src) (snd src) (fst dst) (snd dst)")
        case False
        then show ?thesis by (simp add: targetMoves_def)
      next
        case fm: True
        from fullMove_colors [OF fm] True
        have "color (board g (fst dst, snd dst)) \<noteq> c" by simp
        with kingSquare_probe [OF assms, of "fst src" "snd src" "fst dst" "snd dst"] True dst
        have "kingSquare (probeBoard (board g) (fst src) (snd src) (fst dst) (snd dst)) c \<noteq> None"
          by simp
        with True fm show ?thesis
          by (auto simp: targetMoves_def moveProbe_def inCheck_def)
      qed
    qed
    with True show ?thesis by (auto simp: sourceMoves_def)
  qed
qed

lemma clearN_iff:
  "clearN b r c sr sc n \<longleftrightarrow> (\<forall>k<n. type (b (r + int k * sr, c + int k * sc)) = EMPTY)"
proof (induction n arbitrary: r c)
  case 0
  show ?case by simp
next
  case (Suc n)
  have "(\<forall>k<Suc n. type (b (r + int k * sr, c + int k * sc)) = EMPTY) \<longleftrightarrow>
        type (b (r, c)) = EMPTY \<and>
        (\<forall>k<n. type (b (r + int (Suc k) * sr, c + int (Suc k) * sc)) = EMPTY)"
    by (auto simp: less_Suc_eq_0_disj)
  also have "\<dots> \<longleftrightarrow> type (b (r, c)) = EMPTY \<and>
        (\<forall>k<n. type (b ((r + sr) + int k * sr, (c + sc) + int k * sc)) = EMPTY)"
    by (simp add: algebra_simps)
  finally show ?case by (simp add: Suc.IH)
qed

lemma castleRule_between:
  assumes "castleRule b fr fc tr tc" and "0 \<le> tc" "tc \<le> 7"
      and "min fc (if tc > fc then 7 else 0) < col" "col < max fc (if tc > fc then 7 else 0)"
  shows "type (b (fr, col)) = EMPTY"
proof -
  let ?rookCol = "if tc - fc > 0 then 7 else (0::int)"
  let ?step = "if tc - fc > 0 then 1 else (- 1::int)"
  from assms(1) have dc: "\<bar>tc - fc\<bar> = 2"
    and cl: "clearN b fr (fc + ?step) 0 ?step (nat \<bar>?rookCol - fc\<bar> - 1)"
    by (simp_all add: castleRule_def Let_def)
  show ?thesis
  proof (cases "tc > fc")
    case True
    with dc assms have rng: "fc < col" "col < 7" "fc \<le> 5" by auto
    from cl True have "\<forall>k<nat \<bar>7 - fc\<bar> - 1. type (b (fr + int k * 0, fc + 1 + int k * 1)) = EMPTY"
      by (simp add: clearN_iff)
    then have all: "\<And>k. k < nat \<bar>7 - fc\<bar> - 1 \<Longrightarrow> type (b (fr, fc + 1 + int k)) = EMPTY"
      by simp
    have "nat (col - fc - 1) < nat \<bar>7 - fc\<bar> - 1" using rng by linarith
    from all [OF this] rng show ?thesis by simp
  next
    case False
    with dc assms have rng: "0 < col" "col < fc" "fc \<ge> 2" by auto
    from cl False have "\<forall>k<nat \<bar>0 - fc\<bar> - 1. type (b (fr + int k * 0, fc + - 1 + int k * - 1)) = EMPTY"
      by (simp add: clearN_iff)
    then have all: "\<And>k. k < nat \<bar>0 - fc\<bar> - 1 \<Longrightarrow> type (b (fr, fc - 1 - int k)) = EMPTY"
      by simp
    have "nat (fc - 1 - col) < nat \<bar>0 - fc\<bar> - 1" using rng by linarith
    from all [OF this] rng show ?thesis by simp
  qed
qed

section \<open>Termination of attack detection\<close>

lemma board_newGame: "board newGame = setupBoard"
  by (simp add: newGame_def)

lemma raw_invokes_nothing: "\<not> invokes (Inr (g, fr, fc, tr, tc, True)) callee"
  unfolding invokes_def
  by (auto elim: isSquareAttacked_canPieceMoveTo_rel.cases)

lemma attack_invokes_raw:
  "invokes (Inl (g, tr, tc, by)) callee \<Longrightarrow> \<exists>r c. callee = Inr (g, r, c, tr, tc, True)"
  unfolding invokes_def
  by (auto elim: isSquareAttacked_canPieceMoveTo_rel.cases)

text \<open>
  Claim C9. \<open>isSquareAttacked\<close> returns on every game, square and colour. Its only
  recursive calls are calls of \<open>canPieceMoveTo\<close> with \<open>ignoreCheck = true\<close>, and such a call
  makes no recursive call at all (the castling branch is behind \<open>!ignoreCheck\<close>) and
  returns. Hence check detection returns whenever the king is on the board, and the
  full movement rules, castling safety included, return for every target on the board.
\<close>

theorem attack_detection_terminates:
  "(\<exists>y. isSquareAttacked g tr tc by = Some y) \<and>
   (\<forall>callee. invokes (Inl (g, tr, tc, by)) callee \<longrightarrow>
              (\<exists>r c. callee = Inr (g, r, c, tr, tc, True))) \<and>
   (\<forall>callee. \<not> invokes (Inr (g, fr, fc, tr, tc, True)) callee) \<and>
   (\<exists>y. canPieceMoveTo g fr fc tr tc True = Some y) \<and>
   (findKing g c \<noteq> None \<longrightarrow> (\<exists>y. isInCheck g c = Some y)) \<and>
   (isValid tr tc \<longrightarrow> (\<exists>y. canPieceMoveTo g fr fc tr tc False = Some y))"
proof (intro conjI)
  show "\<exists>y. isSquareAttacked g tr tc by = Some y"
    by (simp add: isSquareAttacked_eq)
  show "\<forall>callee. invokes (Inl (g, tr, tc, by)) callee \<longrightarrow>
              (\<exists>r c. callee = Inr (g, r, c, tr, tc, True))"
    using attack_invokes_raw by blast
  show "\<forall>callee. \<not> invokes (Inr (g, fr, fc, tr, tc, True)) callee"
    using raw_invokes_nothing by blast
  show "\<exists>y. canPieceMoveTo g fr fc tr tc True = Some y"
    by (simp add: canPieceMoveTo_raw)
  show "findKing g c \<noteq> None \<longrightarrow> (\<exists>y. isInCheck g c = Some y)"
    by (auto simp: isInCheck_def isSquareAttacked_eq)
  show "isValid tr tc \<longrightarrow> (\<exists>y. canPieceMoveTo g fr fc tr tc False = Some y)"
    by (simp add: isValid_def canPieceMoveTo_full)
qed

text \<open>
  At the start position the scan of e3 by Black does call the raw rules for the knight on
  b8, White's king is on the board and g1 is a square.
\<close>

theorem attack_detection_terminates_witness:
  "invokes (Inl (newGame, 5, 4, BLACK)) (Inr (newGame, 0, 1, 5, 4, True)) \<and>
   findKing newGame WHITE \<noteq> None \<and> isValid 7 6 \<and>
   (\<exists>y. isSquareAttacked newGame 5 4 BLACK = Some y) \<and>
   (\<exists>y. isInCheck newGame WHITE = Some y) \<and>
   (\<exists>y. canPieceMoveTo newGame 7 4 7 6 False = Some y)"
proof -
  have p: "color (setupBoard (0, 1)) = BLACK" "type (setupBoard (0, 1)) \<noteq> PAWN"
          "(0, 1) \<in> set squares"
    by code_simp+
  have q: "\<not> color (board newGame (0, 1)) \<noteq> BLACK" "type (board newGame (0, 1)) \<noteq> PAWN"
    using p by (simp_all add: board_newGame)
  have i: "invokes (Inl (newGame, 5, 4, BLACK)) (Inr (newGame, 0, 1, 5, 4, True))"
    unfolding invokes_def
    using isSquareAttacked_canPieceMoveTo_rel.intros(1)
            [where x = "(0, 1)" and xa = 0 and xb = 1 and xc = "board newGame (0, 1)"
               and g = newGame and ?by = BLACK and tr = 5 and tc = 4]
          p(3) q
    by simp
  have "kingSquare setupBoard WHITE \<noteq> None" by code_simp
  then have k: "findKing newGame WHITE \<noteq> None"
    by (simp add: findKing_eq board_newGame)
  have v: "isValid 7 6" by (simp add: isValid_def)
  from attack_detection_terminates [of newGame 5 4 BLACK 7 4 WHITE]
       attack_detection_terminates [of newGame 7 6 BLACK 7 4 WHITE] i k v
  show ?thesis by blast
qed

section \<open>Castling\<close>

text \<open>
  Claim C5. A king move over two columns in the list of \<open>getLegalMoves\<close> is tagged as
  castling, stays on its row, and needs: the king's \<open>hasMoved\<close> flag clear, a rook with
  \<open>hasMoved\<close> clear on the corner of that row on the side the king moves to, every
  square strictly between king and rook empty, and the king's square, the square it
  crosses and the square it lands on not attacked by the opponent.
\<close>

theorem castling_only_if:
  assumes lm: "getLegalMoves g c = Some (ms, g')"
      and m: "m \<in> set ms"
      and king: "type (board g (fromRow m, fromCol m)) = KING"
      and two: "\<bar>toCol m - fromCol m\<bar> = 2"
  shows "isCastling m \<and> toRow m = fromRow m \<and>
         \<not> hasMoved (board g (fromRow m, fromCol m)) \<and>
         type (board g (fromRow m, if toCol m > fromCol m then 7 else 0)) = ROOK \<and>
         \<not> hasMoved (board g (fromRow m, if toCol m > fromCol m then 7 else 0)) \<and>
         (\<forall>col. min (fromCol m) (if toCol m > fromCol m then 7 else 0) < col \<and>
                col < max (fromCol m) (if toCol m > fromCol m then 7 else 0) \<longrightarrow>
                type (board g (fromRow m, col)) = EMPTY) \<and>
         isSquareAttacked g (fromRow m) (fromCol m) (opponent c) = Some False \<and>
         isSquareAttacked g (fromRow m) ((fromCol m + toCol m) div 2) (opponent c) = Some False \<and>
         isSquareAttacked g (toRow m) (toCol m) (opponent c) = Some False"
proof -
  from lm have l: "legalMoves g c = Some ms"
    by (auto simp: getLegalMoves_eq)
  from legalMoves_member [OF l, of m] m obtain src dst where
    src: "src \<in> set squares" and dst: "dst \<in> set squares" and la: "legalAt g c src dst"
    and em: "m \<in> set (emitMoves g c (fst src) (snd src) (fst dst) (snd dst))"
    by blast
  from emitMoves_squares [OF em] have sq: "fst src = fromRow m" "snd src = fromCol m"
    "fst dst = toRow m" "snd dst = toCol m" by simp_all
  let ?b = "board g" and ?fr = "fromRow m" and ?fc = "fromCol m" and ?tr = "toRow m" and ?tc = "toCol m"
  from la sq have col: "color (?b (?fr, ?fc)) = c"
    and fm: "fullMove ?b (enPassantCol g) ?fr ?fc ?tr ?tc"
    by (simp_all add: legalAt_def) (metis prod.collapse)
  from dst sq have tc: "0 \<le> ?tc" "?tc \<le> 7" by (auto simp: set_squares)
  have "\<not> rawMove ?b (enPassantCol g) ?fr ?fc ?tr ?tc"
    using king two by (simp add: rawMove_def Let_def)
  with fm have cr: "castleRule ?b ?fr ?fc ?tr ?tc" by (simp add: fullMove_def)
  have step: "?fc + (if ?tc - ?fc > 0 then 1 else - 1) = (?fc + ?tc) div 2"
    using two by (auto split: if_splits)
  from cr col have parts: "?tr = ?fr" "\<not> hasMoved (?b (?fr, ?fc))"
    "type (?b (?fr, if ?tc > ?fc then 7 else 0)) = ROOK"
    "\<not> hasMoved (?b (?fr, if ?tc > ?fc then 7 else 0))"
    "\<not> attacked ?b ?fr ?fc (opponent c)"
    "\<not> attacked ?b ?fr (?fc + (if ?tc - ?fc > 0 then 1 else - 1)) (opponent c)"
    "\<not> attacked ?b ?tr ?tc (opponent c)"
    by (auto simp: castleRule_def Let_def)
  have between: "\<forall>col. min ?fc (if ?tc > ?fc then 7 else 0) < col \<and>
                col < max ?fc (if ?tc > ?fc then 7 else 0) \<longrightarrow> type (?b (?fr, col)) = EMPTY"
    using castleRule_between [OF cr tc] by blast
  from emitMoves_tags [OF em] king two sq have tag: "isCastling m" by simp
  from tag parts between show ?thesis
    unfolding step by (simp add: isSquareAttacked_eq)
qed

lemma bare_fields [simp]: "board (bare b epc) = b" "enPassantCol (bare b epc) = epc"
  by (simp_all add: bare_def)

text \<open>King e1 and rook h1, neither moved, against a king on e8: castling short is legal.\<close>

theorem castling_only_if_witness:
  "\<exists>ms. getLegalMoves (bare castleBoard (- 1)) WHITE = Some (ms, bare castleBoard (- 1)) \<and>
        (newMove 7 4 7 6)\<lparr>isCastling := True\<rparr> \<in> set ms \<and>
        type (castleBoard (7, 4)) = KING \<and>
        \<not> hasMoved (castleBoard (7, 4)) \<and>
        type (castleBoard (7, 7)) = ROOK \<and> \<not> hasMoved (castleBoard (7, 7)) \<and>
        type (castleBoard (7, 5)) = EMPTY \<and> type (castleBoard (7, 6)) = EMPTY \<and>
        isSquareAttacked (bare castleBoard (- 1)) 7 4 BLACK = Some False \<and>
        isSquareAttacked (bare castleBoard (- 1)) 7 5 BLACK = Some False \<and>
        isSquareAttacked (bare castleBoard (- 1)) 7 6 BLACK = Some False"
proof -
  let ?g = "bare castleBoard (- 1)"
  let ?m = "(newMove 7 4 7 6)\<lparr>isCastling := True\<rparr>"
  have "kingSquare castleBoard WHITE \<noteq> None" by code_simp
  then obtain ms where l: "legalMoves ?g WHITE = Some ms"
    using legalMoves_defined [of ?g WHITE] by auto
  then have lm: "getLegalMoves ?g WHITE = Some (ms, ?g)"
    by (simp add: getLegalMoves_eq)
  have la: "legalAt ?g WHITE (7, 4) (7, 6)"
    unfolding legalAt_def bare_fields by code_simp
  have em: "?m \<in> set (emitMoves ?g WHITE 7 4 7 6)"
    unfolding emitMoves_def taggedMove_def bare_fields by code_simp
  have on: "(7, 4) \<in> set squares" "(7, 6) \<in> set squares" by code_simp+
  have mem: "?m \<in> set ms"
    unfolding legalMoves_member [OF l]
    using la em on by (intro bexI [of _ "(7, 4)"] bexI [of _ "(7, 6)"]) simp_all
  have k: "type (board ?g (fromRow ?m, fromCol ?m)) = KING" "\<bar>toCol ?m - fromCol ?m\<bar> = 2"
    by (simp_all add: newMove_def castleBoard_def mkPiece_def)
  from castling_only_if [OF lm mem k] have
    "\<not> hasMoved (castleBoard (7, 4))" "type (castleBoard (7, 7)) = ROOK"
    "\<not> hasMoved (castleBoard (7, 7))"
    "\<forall>col. 4 < col \<and> col < 7 \<longrightarrow> type (castleBoard (7, col)) = EMPTY"
    "isSquareAttacked ?g 7 4 BLACK = Some False"
    "isSquareAttacked ?g 7 5 BLACK = Some False"
    "isSquareAttacked ?g 7 6 BLACK = Some False"
    by (simp_all add: newMove_def opponent_def)
  moreover from this(4) have "type (castleBoard (7, 5)) = EMPTY" "type (castleBoard (7, 6)) = EMPTY"
    by simp_all
  moreover have "type (castleBoard (7, 4)) = KING"
    using k by (simp add: newMove_def)
  ultimately show ?thesis using lm mem by blast
qed

section \<open>En passant\<close>

text \<open>
  Claim C4. When \<open>makeMove\<close> executes a move flagged \<open>isEnPassant\<close>, the square it clears
  is the one in the destination column one row behind the destination as the mover sees
  it (row + 1 for White, row - 1 otherwise): a square different from the destination,
  empty afterwards. The destination holds the mover, and unless the move is also flagged
  as castling no other square but the origin changes.
\<close>

theorem enPassant_removes_pawn_behind:
  assumes ep: "isEnPassant m"
  shows "(if color (board g (fromRow m, fromCol m)) = WHITE then toRow m + 1 else toRow m - 1, toCol m)
           \<noteq> (toRow m, toCol m) \<and>
         board (makeMove g m)
           (if color (board g (fromRow m, fromCol m)) = WHITE then toRow m + 1 else toRow m - 1, toCol m)
           = emptyPiece \<and>
         ((fromRow m, fromCol m) \<noteq> (toRow m, toCol m) \<longrightarrow>
            color (board (makeMove g m) (toRow m, toCol m)) = color (board g (fromRow m, fromCol m)) \<and>
            type (board (makeMove g m) (toRow m, toCol m)) =
              (if promotion m \<noteq> EMPTY then promotion m else type (board g (fromRow m, fromCol m)))) \<and>
         (\<not> isCastling m \<longrightarrow>
            (\<forall>sq. sq \<noteq> (if color (board g (fromRow m, fromCol m)) = WHITE then toRow m + 1 else toRow m - 1, toCol m) \<and>
                  sq \<noteq> (toRow m, toCol m) \<and> sq \<noteq> (fromRow m, fromCol m) \<longrightarrow>
                  board (makeMove g m) sq = board g sq))"
  using ep by (auto simp: board_makeMove moveBoard_def Let_def)

lemma afterD5_board:
  "board afterD5 = moveBoard (moveBoard (moveBoard (moveBoard setupBoard e2e4) a7a6) e4e5) d7d5"
  by (simp add: afterD5_def board_makeMove board_newGame)

lemma afterD5_epc: "enPassantCol afterD5 = 3"
  unfolding afterD5_def enPassantCol_makeMove board_makeMove board_newGame
  by code_simp

lemma afterD5_legal: "legalAt afterD5 WHITE (3, 4) (2, 3)"
  unfolding legalAt_def afterD5_epc afterD5_board by code_simp

lemma afterD5_emit: "emitMoves afterD5 WHITE 3 4 2 3 = [exd6]"
  unfolding emitMoves_def taggedMove_def afterD5_epc afterD5_board exd6_def by code_simp

text \<open>
  In that position the capture is among White's legal moves; the black pawn stands on d5
  and d6 is empty; after the capture d5 is empty and the white pawn stands on d6.
\<close>

theorem enPassant_removes_pawn_behind_witness:
  "(\<exists>ms. getLegalMoves afterD5 WHITE = Some (ms, afterD5) \<and> exd6 \<in> set ms) \<and>
   isEnPassant exd6 \<and>
   type (board afterD5 (3, 3)) = PAWN \<and> color (board afterD5 (3, 3)) = BLACK \<and>
   board afterD5 (2, 3) = emptyPiece \<and>
   board (makeMove afterD5 exd6) (3, 3) = emptyPiece \<and>
   type (board (makeMove afterD5 exd6) (2, 3)) = PAWN \<and>
   color (board (makeMove afterD5 exd6) (2, 3)) = WHITE"
proof -
  have "kingSquare (board afterD5) WHITE \<noteq> None"
    unfolding afterD5_board by code_simp
  then obtain ms where l: "legalMoves afterD5 WHITE = Some ms"
    using legalMoves_defined [of afterD5 WHITE] by auto
  have on: "(3, 4) \<in> set squares" "(2, 3) \<in> set squares" by code_simp+
  have mem: "exd6 \<in> set ms"
    unfolding legalMoves_member [OF l]
    using afterD5_legal afterD5_emit on
    by (intro bexI [of _ "(3, 4)"] bexI [of _ "(2, 3)"]) simp_all
  have ep: "isEnPassant exd6" by (simp add: exd6_def)
  have before: "type (board afterD5 (3, 3)) = PAWN" "color (board afterD5 (3, 3)) = BLACK"
    "board afterD5 (2, 3) = emptyPiece" "color (board afterD5 (3, 4)) = WHITE"
    "type (board afterD5 (3, 4)) = PAWN"
    unfolding afterD5_board by code_simp+
  have sq: "fromRow exd6 = 3" "fromCol exd6 = 4" "toRow exd6 = 2" "toCol exd6 = 3"
    "promotion exd6 = EMPTY"
    by (simp_all add: exd6_def newMove_def)
  from enPassant_removes_pawn_behind [OF ep, of afterD5] before
  have "board (makeMove afterD5 exd6) (3, 3) = emptyPiece"
    "type (board (makeMove afterD5 exd6) (2, 3)) = PAWN"
    "color (board (makeMove afterD5 exd6) (2, 3)) = WHITE"
    by (simp_all add: sq)
  with l mem ep before show ?thesis
    by (simp add: getLegalMoves_eq)
qed

text \<open>
  Claim C10, evaluated on the code. After \<open>e2e4\<close> from the start position the stored
  en-passant column is the pawn's column, and the stored row is 4, the row the pawn
  landed on; the square it passed over is on row 5.
\<close>

theorem enPassantRow_is_landing_row:
  "enPassantCol (makeMove newGame e2e4) = 4 \<and>
   enPassantRow (makeMove newGame e2e4) = 4 \<and>
   (fromRow e2e4 + toRow e2e4) div 2 = 5"
  unfolding enPassantCol_makeMove enPassantRow_makeMove board_newGame
  by code_simp

section \<open>The command loop\<close>

lemma sameSquares_emit:
  "m \<in> set (emitMoves g c r col tr tc) \<Longrightarrow>
   sameSquares u m \<longleftrightarrow> (r, col) = (fromRow u, fromCol u) \<and> (tr, tc) = (toRow u, toCol u)"
  by (auto simp: sameSquares_def dest: emitMoves_squares)

lemma legalMoves_find:
  assumes l: "legalMoves g c = Some ms"
      and src: "(fromRow u, fromCol u) \<in> set squares"
      and dst: "(toRow u, toCol u) \<in> set squares"
  shows "find (sameSquares u) ms =
           (if legalAt g c (fromRow u, fromCol u) (toRow u, toCol u)
            then Some (firstMove g c u) else None)"
proof -
  let ?src = "(fromRow u, fromCol u)" and ?dst = "(toRow u, toCol u)"
  from l have col: "collect (sourceMoves g c) squares = Some ms"
    by (simp add: legalMoves_def)
  from collect_each [OF col src] obtain zs0 where zs0: "sourceMoves g c ?src = Some zs0"
    by blast
  have outer: "find (sameSquares u) ms = find (sameSquares u) zs0"
  proof (rule collect_find [OF col _ src zs0])
    fix x zs z
    assume x: "x \<in> set squares" "x \<noteq> ?src" "sourceMoves g c x = Some zs" "z \<in> set zs"
    from sourceMoves_member [OF x(3), of z] x(4) obtain d where
      "z \<in> set (emitMoves g c (fst x) (snd x) (fst d) (snd d))" by blast
    from sameSquares_emit [OF this, of u] x(2) show "\<not> sameSquares u z"
      by (cases x) auto
  qed
  show ?thesis
  proof (cases "color (board g ?src) = c")
    case False
    with zs0 have "zs0 = []" by (simp add: sourceMoves_def)
    with outer False show ?thesis by (simp add: legalAt_def)
  next
    case True
    with zs0 have col2: "collect (targetMoves g c ?src) squares = Some zs0"
      by (simp add: sourceMoves_def)
    from collect_each [OF col2 dst] obtain ts0 where ts0: "targetMoves g c ?src ?dst = Some ts0"
      by blast
    have inner: "find (sameSquares u) zs0 = find (sameSquares u) ts0"
    proof (rule collect_find [OF col2 _ dst ts0])
      fix x zs z
      assume x: "x \<in> set squares" "x \<noteq> ?dst" "targetMoves g c ?src x = Some zs" "z \<in> set zs"
      from targetMoves_member [OF x(3), of z] x(4)
      have "z \<in> set (emitMoves g c (fst ?src) (snd ?src) (fst x) (snd x))" by blast
      from sameSquares_emit [OF this, of u] x(2) show "\<not> sameSquares u z"
        by (cases x) auto
    qed
    show ?thesis
    proof (cases "legalAt g c ?src ?dst")
      case la: True
      with ts0 have "ts0 = emitMoves g c (fromRow u) (fromCol u) (toRow u) (toCol u)"
        by (auto simp: legalAt_def targetMoves_def)
      moreover from emitMoves_first [of g c "fromRow u" "fromCol u" "toRow u" "toCol u"]
      obtain rest where e: "emitMoves g c (fromRow u) (fromCol u) (toRow u) (toCol u)
                            = firstMove g c u # rest"
        unfolding firstMove_def by blast
      moreover have "sameSquares u (firstMove g c u)"
        using sameSquares_emit [of "firstMove g c u" g c "fromRow u" "fromCol u" "toRow u" "toCol u" u] e
        by simp
      ultimately have "find (sameSquares u) ts0 = Some (firstMove g c u)" by simp
      with outer inner la show ?thesis by simp
    next
      case nla: False
      with True ts0 have "ts0 = []"
        by (auto simp: legalAt_def targetMoves_def split: if_splits)
      with outer inner nla show ?thesis by simp
    qed
  qed
qed

lemma parseMove_squares:
  "parseMove s = Some u \<Longrightarrow>
   (fromRow u, fromCol u) \<in> set squares \<and> (toRow u, toCol u) \<in> set squares"
  by (auto simp: parseMove_def Let_def isValid_def set_squares split: if_splits)

lemma keyed_historyCurrent [simp]: "keyed (g\<lparr>historyCurrent := h\<rparr>) = keyed g"
proof -
  have "getPositionKey (g\<lparr>historyCurrent := h\<rparr>) = getPositionKey g"
    by (rule getPositionKey_cong) simp_all
  then show ?thesis by (simp add: keyed_def)
qed

lemma keyed_stacks [simp]:
  "keyed (g\<lparr>undoStack := u\<rparr>) = keyed g" "keyed (g\<lparr>redoStack := r\<rparr>) = keyed g"
proof -
  have "getPositionKey (g\<lparr>undoStack := u\<rparr>) = getPositionKey g"
       "getPositionKey (g\<lparr>redoStack := r\<rparr>) = getPositionKey g"
    by (rule getPositionKey_cong; simp)+
  then show "keyed (g\<lparr>undoStack := u\<rparr>) = keyed g" "keyed (g\<lparr>redoStack := r\<rparr>) = keyed g"
    by (simp_all add: keyed_def)
qed

lemma setState_stacks [simp]:
  "undoStack (setState g s) = undoStack g" "redoStack (setState g s) = redoStack g"
  "history (setState g s) = history g" "historyCurrent (setState g s) = historyCurrent g"
  by (simp_all add: setState_def)

lemma allKeyed_undo: "allKeyed g \<Longrightarrow> allKeyed (undo g)"
  by (cases "undoStack g"; cases "historyCurrent g")
     (auto simp: allKeyed_def undo_def Let_def keyed_setState keyed_getState)

lemma allKeyed_redo: "allKeyed g \<Longrightarrow> allKeyed (redo g)"
  by (cases "redoStack g"; cases "historyCurrent g")
     (auto simp: allKeyed_def redo_def Let_def keyed_setState keyed_getState)

lemma allKeyed_makeMove: "allKeyed g \<Longrightarrow> allKeyed (makeMove g m)"
  by (simp add: allKeyed_def keyed_makeMove undoStack_makeMove redoStack_makeMove keyed_getState)

lemma allKeyed_newGame: "allKeyed newGame"
  by (simp add: allKeyed_def keyed_newGame) (simp add: newGame_def)

lemma playMove_cases:
  assumes k: "keyed g" and p: "playMove g s = Some (r, g')"
  shows "(parseMove s = None \<and> r = ERROR_InvalidMove \<and> g' = g) \<or>
         (\<exists>u ms. parseMove s = Some u \<and> getLegalMoves g (currentPlayer g) = Some (ms, g) \<and>
            ((find (sameSquares u) ms = None \<and> r = ERROR_IllegalMove \<and> g' = g) \<or>
             (\<exists>a. find (sameSquares u) ms = Some a \<and> r = Accepted \<and> g' = makeMove g a)))"
proof (cases "parseMove s")
  case None
  with p obtain h where "printState g = Some h" "r = ERROR_InvalidMove" "g' = h"
    by (auto simp: playMove_def bind_eq_Some_conv)
  with printState_keyed [OF k] None show ?thesis by simp
next
  case (Some u)
  with p obtain ms where lm: "getLegalMoves g (currentPlayer g) = Some (ms, g)"
    by (auto simp: playMove_def bind_eq_Some_conv getLegalMoves_eq)
  show ?thesis
  proof (cases "find (sameSquares u) ms")
    case None
    with p Some lm obtain h where "printState g = Some h" "r = ERROR_IllegalMove" "g' = h"
      by (auto simp: playMove_def bind_eq_Some_conv)
    with printState_keyed [OF k] Some lm None show ?thesis by simp
  next
    case (Some a)
    with p \<open>parseMove s = Some u\<close> lm obtain h where
      "printState (makeMove g a) = Some h" "r = Accepted" "g' = h"
      by (auto simp: playMove_def bind_eq_Some_conv)
    with printState_keyed [OF keyed_makeMove] \<open>parseMove s = Some u\<close> lm Some show ?thesis
      by simp
  qed
qed

lemma allKeyed_playCommand:
  assumes "allKeyed g" and "playCommand g cmd = Some g'"
  shows "allKeyed g'"
proof (cases cmd)
  case UNDO
  with assms(2) have "printState (undo g) = Some g'" by (simp add: playCommand_def)
  with allKeyed_undo [OF assms(1)] show ?thesis
    using printState_keyed [of "undo g" g'] by (auto simp: allKeyed_def)
next
  case REDO
  with assms(2) have "printState (redo g) = Some g'" by (simp add: playCommand_def)
  with allKeyed_redo [OF assms(1)] show ?thesis
    using printState_keyed [of "redo g" g'] by (auto simp: allKeyed_def)
next
  case (MOVE s)
  with assms(2) obtain r where "playMove g s = Some (r, g')"
    by (auto simp: playCommand_def)
  from playMove_cases [OF _ this] assms(1) allKeyed_makeMove [OF assms(1)]
  show ?thesis by (auto simp: allKeyed_def)
next
  case OTHER
  with assms(2) have "printState g = Some g'" by (simp add: playCommand_def)
  with assms(1) show ?thesis
    using printState_keyed [of g g'] by (auto simp: allKeyed_def)
qed

lemma reachable_allKeyed: "reachable g \<Longrightarrow> allKeyed g"
proof (induction rule: reachable.induct)
  case (start g)
  with printState_keyed [OF keyed_newGame] allKeyed_newGame show ?case by simp
next
  case (step g cmd g')
  then show ?case using allKeyed_playCommand by blast
qed

text \<open>
  Claim C8. In every game the command loop can reach, a \<open>MOVE\<close> command answered with
  \<open>ERROR InvalidMove\<close> (the text does not parse) or \<open>ERROR IllegalMove\<close> (it parses, and no
  move in the list of \<open>getLegalMoves\<close> for the side to move has its squares) leaves the
  whole game as it was: board, side to move, en-passant target, clock, repetition counts,
  both snapshot stacks, the move log and its cursor. (A command whose processing has no
  result, because a king is missing, is outside the statement.)
\<close>

theorem rejected_move_changes_nothing:
  assumes "reachable g" and "playMove g s = Some (r, g')"
  shows "(r = ERROR_InvalidMove \<longleftrightarrow> parseMove s = None) \<and>
         (r = ERROR_IllegalMove \<longleftrightarrow>
            (\<exists>u ms. parseMove s = Some u \<and>
                    getLegalMoves g (currentPlayer g) = Some (ms, g) \<and>
                    find (sameSquares u) ms = None)) \<and>
         (r \<noteq> Accepted \<longrightarrow> g' = g)"
proof -
  from reachable_allKeyed [OF assms(1)] have k: "keyed g" by (simp add: allKeyed_def)
  from playMove_cases [OF k assms(2)] show ?thesis by auto
qed

lemma printState_defined:
  assumes k: "keyed g" and king: "kingSquare (board g) (currentPlayer g) \<noteq> None"
  shows "printState g = Some g"
proof -
  from legalMoves_defined [OF king] obtain ms where "legalMoves g (currentPlayer g) = Some ms"
    by blast
  moreover from king obtain y where "inCheck (board g) (currentPlayer g) = Some y"
    by (auto simp: inCheck_def)
  ultimately have "moveStatus g \<noteq> None"
    by (simp add: moveStatus_def getLegalMoves_eq isInCheck_eq)
  then have "statusOf g \<noteq> None" by (simp add: statusOf_eq)
  then obtain st h where gs: "getGameStatus g = Some (st, h)"
    by (auto simp: statusOf_def)
  from getGameStatus_keyed [OF k gs] gs show ?thesis by (simp add: printState_def)
qed

lemma newGame_fields:
  "currentPlayer newGame = WHITE" "enPassantCol newGame = - 1"
  by (simp_all add: newGame_def)

lemma newGame_kings:
  "kingSquare setupBoard WHITE \<noteq> None" "kingSquare setupBoard BLACK \<noteq> None"
  by code_simp+

lemma printState_newGame: "printState newGame = Some newGame"
  by (rule printState_defined) (simp_all add: keyed_newGame board_newGame newGame_fields newGame_kings)

text \<open>At the start: \<open>e2\<close> does not parse, and \<open>e2e5\<close> parses but is not legal.\<close>

theorem rejected_move_changes_nothing_witness:
  "reachable newGame \<and>
   parseMove ''e2'' = None \<and>
   playMove newGame ''e2'' = Some (ERROR_InvalidMove, newGame) \<and>
   (\<exists>u ms. parseMove ''e2e5'' = Some u \<and>
      getLegalMoves newGame (currentPlayer newGame) = Some (ms, newGame) \<and>
      find (sameSquares u) ms = None) \<and>
   playMove newGame ''e2e5'' = Some (ERROR_IllegalMove, newGame)"
proof -
  have r: "reachable newGame"
    by (rule reachable.start) (rule printState_newGame)
  have p1: "parseMove ''e2'' = None" by (simp add: parseMove_def)
  obtain g1 where m1: "playMove newGame ''e2'' = Some (ERROR_InvalidMove, g1)"
    by (simp add: playMove_def p1 printState_newGame)
  from rejected_move_changes_nothing [OF r m1] have g1: "g1 = newGame" by simp
  have p2: "parseMove ''e2e5'' = Some (newMove 6 4 3 4)" by code_simp
  from legalMoves_defined [of newGame WHITE] obtain ms where
    l: "legalMoves newGame WHITE = Some ms"
    by (auto simp: board_newGame newGame_kings)
  have nl: "\<not> legalAt newGame WHITE (6, 4) (3, 4)"
    unfolding legalAt_def board_newGame newGame_fields by code_simp
  have on: "(6, 4) \<in> set squares" "(3, 4) \<in> set squares" by code_simp+
  have f: "find (sameSquares (newMove 6 4 3 4)) ms = None"
    using legalMoves_find [OF l, of "newMove 6 4 3 4"] nl on by (simp add: newMove_def)
  have lm: "getLegalMoves newGame (currentPlayer newGame) = Some (ms, newGame)"
    by (simp add: getLegalMoves_eq newGame_fields l)
  obtain r2 g2 where m2: "playMove newGame ''e2e5'' = Some (r2, g2)"
    by (simp add: playMove_def p2 lm f printState_newGame)
  from rejected_move_changes_nothing [OF r m2] p2 lm f
  have "r2 = ERROR_IllegalMove" "g2 = newGame" by auto
  with r p1 m1 g1 p2 lm f m2 show ?thesis by blast
qed

section \<open>Games played from the start position\<close>

lemma played_position:
  "board (played ms) = fst (positionAfter ms) \<and> enPassantCol (played ms) = snd (positionAfter ms)"
proof (induction ms rule: rev_induct)
  case Nil
  show ?case by (simp add: played_def positionAfter_def board_newGame newGame_fields)
next
  case (snoc m ms)
  then show ?case
    by (simp add: played_def positionAfter_def stepPosition_def board_makeMove enPassantCol_makeMove)
qed

lemma played_player:
  "currentPlayer (played ms) = (if even (length ms) then WHITE else BLACK)"
  by (induction ms rule: rev_induct)
     (simp_all add: played_def newGame_fields currentPlayer_makeMove opponent_def)

lemma played_keyed: "keyed (played ms)"
  by (cases ms rule: rev_cases) (simp_all add: played_def keyed_newGame keyed_makeMove)

lemma played_snoc: "played (ms @ [m]) = makeMove (played ms) m"
  by (simp add: played_def)

lemma firstMove_bare: "firstMove g c u = firstMove (bare (board g) (enPassantCol g)) c u"
  by (simp add: firstMove_def taggedMove_def)

lemma playMove_accepted:
  assumes k: "keyed g"
      and p: "parseMove s = Some u"
      and king: "kingSquare (board g) (currentPlayer g) \<noteq> None"
      and la: "legalAt g (currentPlayer g) (fromRow u, fromCol u) (toRow u, toCol u)"
      and king': "kingSquare (moveBoard (board g) (firstMove g (currentPlayer g) u))
                    (opponent (currentPlayer g)) \<noteq> None"
  shows "playMove g s = Some (Accepted, makeMove g (firstMove g (currentPlayer g) u))"
proof -
  let ?a = "firstMove g (currentPlayer g) u"
  from legalMoves_defined [OF king] obtain ms where l: "legalMoves g (currentPlayer g) = Some ms"
    by blast
  from parseMove_squares [OF p] legalMoves_find [OF l, of u] la
  have f: "find (sameSquares u) ms = Some ?a" by simp
  have "printState (makeMove g ?a) = Some (makeMove g ?a)"
    by (rule printState_defined)
       (simp_all add: keyed_makeMove board_makeMove currentPlayer_makeMove king')
  with p l f show ?thesis
    by (simp add: playMove_def getLegalMoves_eq)
qed

lemma played_step:
  assumes p: "parseMove s = Some u"
      and c: "c = (if even (length ms) then WHITE else BLACK)"
      and king: "kingSquare (fst (positionAfter ms)) c \<noteq> None"
      and la: "legalIn (positionAfter ms) c u"
      and a: "firstIn (positionAfter ms) c u = a"
      and king': "kingSquare (moveBoard (fst (positionAfter ms)) a) (opponent c) \<noteq> None"
  shows "playMove (played ms) s = Some (Accepted, played (ms @ [a]))"
proof -
  let ?g = "played ms"
  have pos: "board ?g = fst (positionAfter ms)" "enPassantCol ?g = snd (positionAfter ms)"
    using played_position [of ms] by simp_all
  have pl: "currentPlayer ?g = c" using c by (simp add: played_player)
  have fm: "firstMove ?g c u = a"
    using a firstMove_bare [of ?g c u] by (simp add: firstIn_def pos)
  have "playMove ?g s = Some (Accepted, makeMove ?g (firstMove ?g (currentPlayer ?g) u))"
    by (rule playMove_accepted [OF played_keyed p])
       (use king la king' fm in \<open>simp_all add: pl pos legalAt_def legalIn_def\<close>)
  then show ?thesis by (simp add: pl fm played_snoc)
qed

lemma reachable_played:
  assumes "reachable (played ms)" and "playMove (played ms) s = Some (Accepted, played (ms @ [a]))"
  shows "reachable (played (ms @ [a]))"
  by (rule reachable.step [OF assms(1), of "MOVE s"]) (simp add: playCommand_def assms(2))

lemma reachable_start: "reachable (played [])"
  by (simp add: played_def reachable.start printState_newGame)

section \<open>An en-passant capture that uncovers the mover's king\<close>

lemma pin_ply1:
  "playMove (played []) ''e2e3'' = Some (Accepted, played ([] @ [newMove 6 4 5 4]))"
proof (rule played_step [where u = "newMove 6 4 5 4" and c = WHITE])
  show "parseMove ''e2e3'' = Some (newMove 6 4 5 4)" by code_simp
  show "WHITE = (if even (length []) then WHITE else BLACK)" by simp
  show "kingSquare (fst (positionAfter [])) WHITE \<noteq> None" by code_simp
  show "legalIn (positionAfter []) WHITE (newMove 6 4 5 4)" by code_simp
  show "firstIn (positionAfter []) WHITE (newMove 6 4 5 4) = newMove 6 4 5 4" by code_simp
  show "kingSquare (moveBoard (fst (positionAfter [])) (newMove 6 4 5 4)) (opponent WHITE) \<noteq> None"
    by code_simp
qed

lemma pin_ply2:
  "playMove (played [newMove 6 4 5 4]) ''c7c6'' = Some (Accepted, played ([newMove 6 4 5 4] @ [newMove 1 2 2 2]))"
proof (rule played_step [where u = "newMove 1 2 2 2" and c = BLACK])
  show "parseMove ''c7c6'' = Some (newMove 1 2 2 2)" by code_simp
  show "BLACK = (if even (length [newMove 6 4 5 4]) then WHITE else BLACK)" by simp
  show "kingSquare (fst (positionAfter [newMove 6 4 5 4])) BLACK \<noteq> None" by code_simp
  show "legalIn (positionAfter [newMove 6 4 5 4]) BLACK (newMove 1 2 2 2)" by code_simp
  show "firstIn (positionAfter [newMove 6 4 5 4]) BLACK (newMove 1 2 2 2) = newMove 1 2 2 2" by code_simp
  show "kingSquare (moveBoard (fst (positionAfter [newMove 6 4 5 4])) (newMove 1 2 2 2)) (opponent BLACK) \<noteq> None"
    by code_simp
qed

lemma pin_ply3:
  "playMove (played [newMove 6 4 5 4, newMove 1 2 2 2]) ''g2g4'' = Some (Accepted, played ([newMove 6 4 5 4, newMove 1 2 2 2] @ [newMove 6 6 4 6]))"
proof (rule played_step [where u = "newMove 6 6 4 6" and c = WHITE])
  show "parseMove ''g2g4'' = Some (newMove 6 6 4 6)" by code_simp
  show "WHITE = (if even (length [newMove 6 4 5 4, newMove 1 2 2 2]) then WHITE else BLACK)" by simp
  show "kingSquare (fst (positionAfter [newMove 6 4 5 4, newMove 1 2 2 2])) WHITE \<noteq> None" by code_simp
  show "legalIn (positionAfter [newMove 6 4 5 4, newMove 1 2 2 2]) WHITE (newMove 6 6 4 6)" by code_simp
  show "firstIn (positionAfter [newMove 6 4 5 4, newMove 1 2 2 2]) WHITE (newMove 6 6 4 6) = newMove 6 6 4 6" by code_simp
  show "kingSquare (moveBoard (fst (positionAfter [newMove 6 4 5 4, newMove 1 2 2 2])) (newMove 6 6 4 6)) (opponent WHITE) \<noteq> None"
    by code_simp
qed

lemma pin_ply4:
  "playMove (played [newMove 6 4 5 4, newMove 1 2 2 2, newMove 6 6 4 6]) ''d8a5'' = Some (Accepted, played ([newMove 6 4 5 4, newMove 1 2 2 2, newMove 6 6 4 6] @ [newMove 0 3 3 0]))"
proof (rule played_step [where u = "newMove 0 3 3 0" and c = BLACK])
  show "parseMove ''d8a5'' = Some (newMove 0 3 3 0)" by code_simp
  show "BLACK = (if even (length [newMove 6 4 5 4, newMove 1 2 2 2, newMove 6 6 4 6]) then WHITE else BLACK)" by simp
  show "kingSquare (fst (positionAfter [newMove 6 4 5 4, newMove 1 2 2 2, newMove 6 6 4 6])) BLACK \<noteq> None" by code_simp
  show "legalIn (positionAfter [newMove 6 4 5 4, newMove 1 2 2 2, newMove 6 6 4 6]) BLACK (newMove 0 3 3 0)" by code_simp
  show "firstIn (positionAfter [newMove 6 4 5 4, newMove 1 2 2 2, newMove 6 6 4 6]) BLACK (newMove 0 3 3 0) = newMove 0 3 3 0" by code_simp
  show "kingSquare (moveBoard (fst (positionAfter [newMove 6 4 5 4, newMove 1 2 2 2, newMove 6 6 4 6])) (newMove 0 3 3 0)) (opponent BLACK) \<noteq> None"
    by code_simp
qed

lemma pin_ply5:
  "playMove (played [newMove 6 4 5 4, newMove 1 2 2 2, newMove 6 6 4 6, newMove 0 3 3 0]) ''g4g5'' = Some (Accepted, played ([newMove 6 4 5 4, newMove 1 2 2 2, newMove 6 6 4 6, newMove 0 3 3 0] @ [newMove 4 6 3 6]))"
proof (rule played_step [where u = "newMove 4 6 3 6" and c = WHITE])
  show "parseMove ''g4g5'' = Some (newMove 4 6 3 6)" by code_simp
  show "WHITE = (if even (length [newMove 6 4 5 4, newMove 1 2 2 2, newMove 6 6 4 6, newMove 0 3 3 0]) then WHITE else BLACK)" by simp
  show "kingSquare (fst (positionAfter [newMove 6 4 5 4, newMove 1 2 2 2, newMove 6 6 4 6, newMove 0 3 3 0])) WHITE \<noteq> None" by code_simp
  show "legalIn (positionAfter [newMove 6 4 5 4, newMove 1 2 2 2, newMove 6 6 4 6, newMove 0 3 3 0]) WHITE (newMove 4 6 3 6)" by code_simp
  show "firstIn (positionAfter [newMove 6 4 5 4, newMove 1 2 2 2, newMove 6 6 4 6, newMove 0 3 3 0]) WHITE (newMove 4 6 3 6) = newMove 4 6 3 6" by code_simp
  show "kingSquare (moveBoard (fst (positionAfter [newMove 6 4 5 4, newMove 1 2 2 2, newMove 6 6 4 6, newMove 0 3 3 0])) (newMove 4 6 3 6)) (opponent WHITE) \<noteq> None"
    by code_simp
qed

lemma pin_ply6:
  "playMove (played [newMove 6 4 5 4, newMove 1 2 2 2, newMove 6 6 4 6, newMove 0 3 3 0, newMove 4 6 3 6]) ''a7a6'' = Some (Accepted, played ([newMove 6 4 5 4, newMove 1 2 2 2, newMove 6 6 4 6, newMove 0 3 3 0, newMove 4 6 3 6] @ [newMove 1 0 2 0]))"
proof (rule played_step [where u = "newMove 1 0 2 0" and c = BLACK])
  show "parseMove ''a7a6'' = Some (newMove 1 0 2 0)" by code_simp
  show "BLACK = (if even (length [newMove 6 4 5 4, newMove 1 2 2 2, newMove 6 6 4 6, newMove 0 3 3 0, newMove 4 6 3 6]) then WHITE else BLACK)" by simp
  show "kingSquare (fst (positionAfter [newMove 6 4 5 4, newMove 1 2 2 2, newMove 6 6 4 6, newMove 0 3 3 0, newMove 4 6 3 6])) BLACK \<noteq> None" by code_simp
  show "legalIn (positionAfter [newMove 6 4 5 4, newMove 1 2 2 2, newMove 6 6 4 6, newMove 0 3 3 0, newMove 4 6 3 6]) BLACK (newMove 1 0 2 0)" by code_simp
  show "firstIn (positionAfter [newMove 6 4 5 4, newMove 1 2 2 2, newMove 6 6 4 6, newMove 0 3 3 0, newMove 4 6 3 6]) BLACK (newMove 1 0 2 0) = newMove 1 0 2 0" by code_simp
  show "kingSquare (moveBoard (fst (positionAfter [newMove 6 4 5 4, newMove 1 2 2 2, newMove 6 6 4 6, newMove 0 3 3 0, newMove 4 6 3 6])) (newMove 1 0 2 0)) (opponent BLACK) \<noteq> None"
    by code_simp
qed

lemma pin_ply7:
  "playMove (played [newMove 6 4 5 4, newMove 1 2 2 2, newMove 6 6 4 6, newMove 0 3 3 0, newMove 4 6 3 6, newMove 1 0 2 0]) ''e1e2'' = Some (Accepted, played ([newMove 6 4 5 4, newMove 1 2 2 2, newMove 6 6 4 6, newMove 0 3 3 0, newMove 4 6 3 6, newMove 1 0 2 0] @ [newMove 7 4 6 4]))"
proof (rule played_step [where u = "newMove 7 4 6 4" and c = WHITE])
  show "parseMove ''e1e2'' = Some (newMove 7 4 6 4)" by code_simp
  show "WHITE = (if even (length [newMove 6 4 5 4, newMove 1 2 2 2, newMove 6 6 4 6, newMove 0 3 3 0, newMove 4 6 3 6, newMove 1 0 2 0]) then WHITE else BLACK)" by simp
  show "kingSquare (fst (positionAfter [newMove 6 4 5 4, newMove 1 2 2 2, newMove 6 6 4 6, newMove 0 3 3 0, newMove 4 6 3 6, newMove 1 0 2 0])) WHITE \<noteq> None" by code_simp
  show "legalIn (positionAfter [newMove 6 4 5 4, newMove 1 2 2 2, newMove 6 6 4 6, newMove 0 3 3 0, newMove 4 6 3 6, newMove 1 0 2 0]) WHITE (newMove 7 4 6 4)" by code_simp
  show "firstIn (positionAfter [newMove 6 4 5 4, newMove 1 2 2 2, newMove 6 6 4 6, newMove 0 3 3 0, newMove 4 6 3 6, newMove 1 0 2 0]) WHITE (newMove 7 4 6 4) = newMove 7 4 6 4" by code_simp
  show "kingSquare (moveBoard (fst (positionAfter [newMove 6 4 5 4, newMove 1 2 2 2, newMove 6 6 4 6, newMove 0 3 3 0, newMove 4 6 3 6, newMove 1 0 2 0])) (newMove 7 4 6 4)) (opponent WHITE) \<noteq> None"
    by code_simp
qed

lemma pin_ply8:
  "playMove (played [newMove 6 4 5 4, newMove 1 2 2 2, newMove 6 6 4 6, newMove 0 3 3 0, newMove 4 6 3 6, newMove 1 0 2 0, newMove 7 4 6 4]) ''b7b6'' = Some (Accepted, played ([newMove 6 4 5 4, newMove 1 2 2 2, newMove 6 6 4 6, newMove 0 3 3 0, newMove 4 6 3 6, newMove 1 0 2 0, newMove 7 4 6 4] @ [newMove 1 1 2 1]))"
proof (rule played_step [where u = "newMove 1 1 2 1" and c = BLACK])
  show "parseMove ''b7b6'' = Some (newMove 1 1 2 1)" by code_simp
  show "BLACK = (if even (length [newMove 6 4 5 4, newMove 1 2 2 2, newMove 6 6 4 6, newMove 0 3 3 0, newMove 4 6 3 6, newMove 1 0 2 0, newMove 7 4 6 4]) then WHITE else BLACK)" by simp
  show "kingSquare (fst (positionAfter [newMove 6 4 5 4, newMove 1 2 2 2, newMove 6 6 4 6, newMove 0 3 3 0, newMove 4 6 3 6, newMove 1 0 2 0, newMove 7 4 6 4])) BLACK \<noteq> None" by code_simp
  show "legalIn (positionAfter [newMove 6 4 5 4, newMove 1 2 2 2, newMove 6 6 4 6, newMove 0 3 3 0, newMove 4 6 3 6, newMove 1 0 2 0, newMove 7 4 6 4]) BLACK (newMove 1 1 2 1)" by code_simp
  show "firstIn (positionAfter [newMove 6 4 5 4, newMove 1 2 2 2, newMove 6 6 4 6, newMove 0 3 3 0, newMove 4 6 3 6, newMove 1 0 2 0, newMove 7 4 6 4]) BLACK (newMove 1 1 2 1) = newMove 1 1 2 1" by code_simp
  show "kingSquare (moveBoard (fst (positionAfter [newMove 6 4 5 4, newMove 1 2 2 2, newMove 6 6 4 6, newMove 0 3 3 0, newMove 4 6 3 6, newMove 1 0 2 0, newMove 7 4 6 4])) (newMove 1 1 2 1)) (opponent BLACK) \<noteq> None"
    by code_simp
qed

lemma pin_ply9:
  "playMove (played [newMove 6 4 5 4, newMove 1 2 2 2, newMove 6 6 4 6, newMove 0 3 3 0, newMove 4 6 3 6, newMove 1 0 2 0, newMove 7 4 6 4, newMove 1 1 2 1]) ''e2f3'' = Some (Accepted, played ([newMove 6 4 5 4, newMove 1 2 2 2, newMove 6 6 4 6, newMove 0 3 3 0, newMove 4 6 3 6, newMove 1 0 2 0, newMove 7 4 6 4, newMove 1 1 2 1] @ [newMove 6 4 5 5]))"
proof (rule played_step [where u = "newMove 6 4 5 5" and c = WHITE])
  show "parseMove ''e2f3'' = Some (newMove 6 4 5 5)" by code_simp
  show "WHITE = (if even (length [newMove 6 4 5 4, newMove 1 2 2 2, newMove 6 6 4 6, newMove 0 3 3 0, newMove 4 6 3 6, newMove 1 0 2 0, newMove 7 4 6 4, newMove 1 1 2 1]) then WHITE else BLACK)" by simp
  show "kingSquare (fst (positionAfter [newMove 6 4 5 4, newMove 1 2 2 2, newMove 6 6 4 6, newMove 0 3 3 0, newMove 4 6 3 6, newMove 1 0 2 0, newMove 7 4 6 4, newMove 1 1 2 1])) WHITE \<noteq> None" by code_simp
  show "legalIn (positionAfter [newMove 6 4 5 4, newMove 1 2 2 2, newMove 6 6 4 6, newMove 0 3 3 0, newMove 4 6 3 6, newMove 1 0 2 0, newMove 7 4 6 4, newMove 1 1 2 1]) WHITE (newMove 6 4 5 5)" by code_simp
  show "firstIn (positionAfter [newMove 6 4 5 4, newMove 1 2 2 2, newMove 6 6 4 6, newMove 0 3 3 0, newMove 4 6 3 6, newMove 1 0 2 0, newMove 7 4 6 4, newMove 1 1 2 1]) WHITE (newMove 6 4 5 5) = newMove 6 4 5 5" by code_simp
  show "kingSquare (moveBoard (fst (positionAfter [newMove 6 4 5 4, newMove 1 2 2 2, newMove 6 6 4 6, newMove 0 3 3 0, newMove 4 6 3 6, newMove 1 0 2 0, newMove 7 4 6 4, newMove 1 1 2 1])) (newMove 6 4 5 5)) (opponent WHITE) \<noteq> None"
    by code_simp
qed

lemma pin_ply10:
  "playMove (played [newMove 6 4 5 4, newMove 1 2 2 2, newMove 6 6 4 6, newMove 0 3 3 0, newMove 4 6 3 6, newMove 1 0 2 0, newMove 7 4 6 4, newMove 1 1 2 1, newMove 6 4 5 5]) ''a8a7'' = Some (Accepted, played ([newMove 6 4 5 4, newMove 1 2 2 2, newMove 6 6 4 6, newMove 0 3 3 0, newMove 4 6 3 6, newMove 1 0 2 0, newMove 7 4 6 4, newMove 1 1 2 1, newMove 6 4 5 5] @ [newMove 0 0 1 0]))"
proof (rule played_step [where u = "newMove 0 0 1 0" and c = BLACK])
  show "parseMove ''a8a7'' = Some (newMove 0 0 1 0)" by code_simp
  show "BLACK = (if even (length [newMove 6 4 5 4, newMove 1 2 2 2, newMove 6 6 4 6, newMove 0 3 3 0, newMove 4 6 3 6, newMove 1 0 2 0, newMove 7 4 6 4, newMove 1 1 2 1, newMove 6 4 5 5]) then WHITE else BLACK)" by simp
  show "kingSquare (fst (positionAfter [newMove 6 4 5 4, newMove 1 2 2 2, newMove 6 6 4 6, newMove 0 3 3 0, newMove 4 6 3 6, newMove 1 0 2 0, newMove 7 4 6 4, newMove 1 1 2 1, newMove 6 4 5 5])) BLACK \<noteq> None" by code_simp
  show "legalIn (positionAfter [newMove 6 4 5 4, newMove 1 2 2 2, newMove 6 6 4 6, newMove 0 3 3 0, newMove 4 6 3 6, newMove 1 0 2 0, newMove 7 4 6 4, newMove 1 1 2 1, newMove 6 4 5 5]) BLACK (newMove 0 0 1 0)" by code_simp
  show "firstIn (positionAfter [newMove 6 4 5 4, newMove 1 2 2 2, newMove 6 6 4 6, newMove 0 3 3 0, newMove 4 6 3 6, newMove 1 0 2 0, newMove 7 4 6 4, newMove 1 1 2 1, newMove 6 4 5 5]) BLACK (newMove 0 0 1 0) = newMove 0 0 1 0" by code_simp
  show "kingSquare (moveBoard (fst (positionAfter [newMove 6 4 5 4, newMove 1 2 2 2, newMove 6 6 4 6, newMove 0 3 3 0, newMove 4 6 3 6, newMove 1 0 2 0, newMove 7 4 6 4, newMove 1 1 2 1, newMove 6 4 5 5])) (newMove 0 0 1 0)) (opponent BLACK) \<noteq> None"
    by code_simp
qed

lemma pin_ply11:
  "playMove (played [newMove 6 4 5 4, newMove 1 2 2 2, newMove 6 6 4 6, newMove 0 3 3 0, newMove 4 6 3 6, newMove 1 0 2 0, newMove 7 4 6 4, newMove 1 1 2 1, newMove 6 4 5 5, newMove 0 0 1 0]) ''f3g4'' = Some (Accepted, played ([newMove 6 4 5 4, newMove 1 2 2 2, newMove 6 6 4 6, newMove 0 3 3 0, newMove 4 6 3 6, newMove 1 0 2 0, newMove 7 4 6 4, newMove 1 1 2 1, newMove 6 4 5 5, newMove 0 0 1 0] @ [newMove 5 5 4 6]))"
proof (rule played_step [where u = "newMove 5 5 4 6" and c = WHITE])
  show "parseMove ''f3g4'' = Some (newMove 5 5 4 6)" by code_simp
  show "WHITE = (if even (length [newMove 6 4 5 4, newMove 1 2 2 2, newMove 6 6 4 6, newMove 0 3 3 0, newMove 4 6 3 6, newMove 1 0 2 0, newMove 7 4 6 4, newMove 1 1 2 1, newMove 6 4 5 5, newMove 0 0 1 0]) then WHITE else BLACK)" by simp
  show "kingSquare (fst (positionAfter [newMove 6 4 5 4, newMove 1 2 2 2, newMove 6 6 4 6, newMove 0 3 3 0, newMove 4 6 3 6, newMove 1 0 2 0, newMove 7 4 6 4, newMove 1 1 2 1, newMove 6 4 5 5, newMove 0 0 1 0])) WHITE \<noteq> None" by code_simp
  show "legalIn (positionAfter [newMove 6 4 5 4, newMove 1 2 2 2, newMove 6 6 4 6, newMove 0 3 3 0, newMove 4 6 3 6, newMove 1 0 2 0, newMove 7 4 6 4, newMove 1 1 2 1, newMove 6 4 5 5, newMove 0 0 1 0]) WHITE (newMove 5 5 4 6)" by code_simp
  show "firstIn (positionAfter [newMove 6 4 5 4, newMove 1 2 2 2, newMove 6 6 4 6, newMove 0 3 3 0, newMove 4 6 3 6, newMove 1 0 2 0, newMove 7 4 6 4, newMove 1 1 2 1, newMove 6 4 5 5, newMove 0 0 1 0]) WHITE (newMove 5 5 4 6) = newMove 5 5 4 6" by code_simp
  show "kingSquare (moveBoard (fst (positionAfter [newMove 6 4 5 4, newMove 1 2 2 2, newMove 6 6 4 6, newMove 0 3 3 0, newMove 4 6 3 6, newMove 1 0 2 0, newMove 7 4 6 4, newMove 1 1 2 1, newMove 6 4 5 5, newMove 0 0 1 0])) (newMove 5 5 4 6)) (opponent WHITE) \<noteq> None"
    by code_simp
qed

lemma pin_ply12:
  "playMove (played [newMove 6 4 5 4, newMove 1 2 2 2, newMove 6 6 4 6, newMove 0 3 3 0, newMove 4 6 3 6, newMove 1 0 2 0, newMove 7 4 6 4, newMove 1 1 2 1, newMove 6 4 5 5, newMove 0 0 1 0, newMove 5 5 4 6]) ''a7a8'' = Some (Accepted, played ([newMove 6 4 5 4, newMove 1 2 2 2, newMove 6 6 4 6, newMove 0 3 3 0, newMove 4 6 3 6, newMove 1 0 2 0, newMove 7 4 6 4, newMove 1 1 2 1, newMove 6 4 5 5, newMove 0 0 1 0, newMove 5 5 4 6] @ [newMove 1 0 0 0]))"
proof (rule played_step [where u = "newMove 1 0 0 0" and c = BLACK])
  show "parseMove ''a7a8'' = Some (newMove 1 0 0 0)" by code_simp
  show "BLACK = (if even (length [newMove 6 4 5 4, newMove 1 2 2 2, newMove 6 6 4 6, newMove 0 3 3 0, newMove 4 6 3 6, newMove 1 0 2 0, newMove 7 4 6 4, newMove 1 1 2 1, newMove 6 4 5 5, newMove 0 0 1 0, newMove 5 5 4 6]) then WHITE else BLACK)" by simp
  show "kingSquare (fst (positionAfter [newMove 6 4 5 4, newMove 1 2 2 2, newMove 6 6 4 6, newMove 0 3 3 0, newMove 4 6 3 6, newMove 1 0 2 0, newMove 7 4 6 4, newMove 1 1 2 1, newMove 6 4 5 5, newMove 0 0 1 0, newMove 5 5 4 6])) BLACK \<noteq> None" by code_simp
  show "legalIn (positionAfter [newMove 6 4 5 4, newMove 1 2 2 2, newMove 6 6 4 6, newMove 0 3 3 0, newMove 4 6 3 6, newMove 1 0 2 0, newMove 7 4 6 4, newMove 1 1 2 1, newMove 6 4 5 5, newMove 0 0 1 0, newMove 5 5 4 6]) BLACK (newMove 1 0 0 0)" by code_simp
  show "firstIn (positionAfter [newMove 6 4 5 4, newMove 1 2 2 2, newMove 6 6 4 6, newMove 0 3 3 0, newMove 4 6 3 6, newMove 1 0 2 0, newMove 7 4 6 4, newMove 1 1 2 1, newMove 6 4 5 5, newMove 0 0 1 0, newMove 5 5 4 6]) BLACK (newMove 1 0 0 0) = newMove 1 0 0 0" by code_simp
  show "kingSquare (moveBoard (fst (positionAfter [newMove 6 4 5 4, newMove 1 2 2 2, newMove 6 6 4 6, newMove 0 3 3 0, newMove 4 6 3 6, newMove 1 0 2 0, newMove 7 4 6 4, newMove 1 1 2 1, newMove 6 4 5 5, newMove 0 0 1 0, newMove 5 5 4 6])) (newMove 1 0 0 0)) (opponent BLACK) \<noteq> None"
    by code_simp
qed

lemma pin_ply13:
  "playMove (played [newMove 6 4 5 4, newMove 1 2 2 2, newMove 6 6 4 6, newMove 0 3 3 0, newMove 4 6 3 6, newMove 1 0 2 0, newMove 7 4 6 4, newMove 1 1 2 1, newMove 6 4 5 5, newMove 0 0 1 0, newMove 5 5 4 6, newMove 1 0 0 0]) ''g4h5'' = Some (Accepted, played ([newMove 6 4 5 4, newMove 1 2 2 2, newMove 6 6 4 6, newMove 0 3 3 0, newMove 4 6 3 6, newMove 1 0 2 0, newMove 7 4 6 4, newMove 1 1 2 1, newMove 6 4 5 5, newMove 0 0 1 0, newMove 5 5 4 6, newMove 1 0 0 0] @ [newMove 4 6 3 7]))"
proof (rule played_step [where u = "newMove 4 6 3 7" and c = WHITE])
  show "parseMove ''g4h5'' = Some (newMove 4 6 3 7)" by code_simp
  show "WHITE = (if even (length [newMove 6 4 5 4, newMove 1 2 2 2, newMove 6 6 4 6, newMove 0 3 3 0, newMove 4 6 3 6, newMove 1 0 2 0, newMove 7 4 6 4, newMove 1 1 2 1, newMove 6 4 5 5, newMove 0 0 1 0, newMove 5 5 4 6, newMove 1 0 0 0]) then WHITE else BLACK)" by simp
  show "kingSquare (fst (positionAfter [newMove 6 4 5 4, newMove 1 2 2 2, newMove 6 6 4 6, newMove 0 3 3 0, newMove 4 6 3 6, newMove 1 0 2 0, newMove 7 4 6 4, newMove 1 1 2 1, newMove 6 4 5 5, newMove 0 0 1 0, newMove 5 5 4 6, newMove 1 0 0 0])) WHITE \<noteq> None" by code_simp
  show "legalIn (positionAfter [newMove 6 4 5 4, newMove 1 2 2 2, newMove 6 6 4 6, newMove 0 3 3 0, newMove 4 6 3 6, newMove 1 0 2 0, newMove 7 4 6 4, newMove 1 1 2 1, newMove 6 4 5 5, newMove 0 0 1 0, newMove 5 5 4 6, newMove 1 0 0 0]) WHITE (newMove 4 6 3 7)" by code_simp
  show "firstIn (positionAfter [newMove 6 4 5 4, newMove 1 2 2 2, newMove 6 6 4 6, newMove 0 3 3 0, newMove 4 6 3 6, newMove 1 0 2 0, newMove 7 4 6 4, newMove 1 1 2 1, newMove 6 4 5 5, newMove 0 0 1 0, newMove 5 5 4 6, newMove 1 0 0 0]) WHITE (newMove 4 6 3 7) = newMove 4 6 3 7" by code_simp
  show "kingSquare (moveBoard (fst (positionAfter [newMove 6 4 5 4, newMove 1 2 2 2, newMove 6 6 4 6, newMove 0 3 3 0, newMove 4 6 3 6, newMove 1 0 2 0, newMove 7 4 6 4, newMove 1 1 2 1, newMove 6 4 5 5, newMove 0 0 1 0, newMove 5 5 4 6, newMove 1 0 0 0])) (newMove 4 6 3 7)) (opponent WHITE) \<noteq> None"
    by code_simp
qed

lemma pin_ply14:
  "playMove (played [newMove 6 4 5 4, newMove 1 2 2 2, newMove 6 6 4 6, newMove 0 3 3 0, newMove 4 6 3 6, newMove 1 0 2 0, newMove 7 4 6 4, newMove 1 1 2 1, newMove 6 4 5 5, newMove 0 0 1 0, newMove 5 5 4 6, newMove 1 0 0 0, newMove 4 6 3 7]) ''f7f5'' = Some (Accepted, played ([newMove 6 4 5 4, newMove 1 2 2 2, newMove 6 6 4 6, newMove 0 3 3 0, newMove 4 6 3 6, newMove 1 0 2 0, newMove 7 4 6 4, newMove 1 1 2 1, newMove 6 4 5 5, newMove 0 0 1 0, newMove 5 5 4 6, newMove 1 0 0 0, newMove 4 6 3 7] @ [newMove 1 5 3 5]))"
proof (rule played_step [where u = "newMove 1 5 3 5" and c = BLACK])
  show "parseMove ''f7f5'' = Some (newMove 1 5 3 5)" by code_simp
  show "BLACK = (if even (length [newMove 6 4 5 4, newMove 1 2 2 2, newMove 6 6 4 6, newMove 0 3 3 0, newMove 4 6 3 6, newMove 1 0 2 0, newMove 7 4 6 4, newMove 1 1 2 1, newMove 6 4 5 5, newMove 0 0 1 0, newMove 5 5 4 6, newMove 1 0 0 0, newMove 4 6 3 7]) then WHITE else BLACK)" by simp
  show "kingSquare (fst (positionAfter [newMove 6 4 5 4, newMove 1 2 2 2, newMove 6 6 4 6, newMove 0 3 3 0, newMove 4 6 3 6, newMove 1 0 2 0, newMove 7 4 6 4, newMove 1 1 2 1, newMove 6 4 5 5, newMove 0 0 1 0, newMove 5 5 4 6, newMove 1 0 0 0, newMove 4 6 3 7])) BLACK \<noteq> None" by code_simp
  show "legalIn (positionAfter [newMove 6 4 5 4, newMove 1 2 2 2, newMove 6 6 4 6, newMove 0 3 3 0, newMove 4 6 3 6, newMove 1 0 2 0, newMove 7 4 6 4, newMove 1 1 2 1, newMove 6 4 5 5, newMove 0 0 1 0, newMove 5 5 4 6, newMove 1 0 0 0, newMove 4 6 3 7]) BLACK (newMove 1 5 3 5)" by code_simp
  show "firstIn (positionAfter [newMove 6 4 5 4, newMove 1 2 2 2, newMove 6 6 4 6, newMove 0 3 3 0, newMove 4 6 3 6, newMove 1 0 2 0, newMove 7 4 6 4, newMove 1 1 2 1, newMove 6 4 5 5, newMove 0 0 1 0, newMove 5 5 4 6, newMove 1 0 0 0, newMove 4 6 3 7]) BLACK (newMove 1 5 3 5) = newMove 1 5 3 5" by code_simp
  show "kingSquare (moveBoard (fst (positionAfter [newMove 6 4 5 4, newMove 1 2 2 2, newMove 6 6 4 6, newMove 0 3 3 0, newMove 4 6 3 6, newMove 1 0 2 0, newMove 7 4 6 4, newMove 1 1 2 1, newMove 6 4 5 5, newMove 0 0 1 0, newMove 5 5 4 6, newMove 1 0 0 0, newMove 4 6 3 7])) (newMove 1 5 3 5)) (opponent BLACK) \<noteq> None"
    by code_simp
qed

lemma pin_reachable: "reachable pinGame"
proof -
  have r0: "reachable (played [])" by (rule reachable_start)
  have r1: "reachable (played [newMove 6 4 5 4])"
    using reachable_played [OF r0 pin_ply1] by simp
  have r2: "reachable (played [newMove 6 4 5 4, newMove 1 2 2 2])"
    using reachable_played [OF r1 pin_ply2] by simp
  have r3: "reachable (played [newMove 6 4 5 4, newMove 1 2 2 2, newMove 6 6 4 6])"
    using reachable_played [OF r2 pin_ply3] by simp
  have r4: "reachable (played [newMove 6 4 5 4, newMove 1 2 2 2, newMove 6 6 4 6, newMove 0 3 3 0])"
    using reachable_played [OF r3 pin_ply4] by simp
  have r5: "reachable (played [newMove 6 4 5 4, newMove 1 2 2 2, newMove 6 6 4 6, newMove 0 3 3 0, newMove 4 6 3 6])"
    using reachable_played [OF r4 pin_ply5] by simp
  have r6: "reachable (played [newMove 6 4 5 4, newMove 1 2 2 2, newMove 6 6 4 6, newMove 0 3 3 0, newMove 4 6 3 6, newMove 1 0 2 0])"
    using reachable_played [OF r5 pin_ply6] by simp
  have r7: "reachable (played [newMove 6 4 5 4, newMove 1 2 2 2, newMove 6 6 4 6, newMove 0 3 3 0, newMove 4 6 3 6, newMove 1 0 2 0, newMove 7 4 6 4])"
    using reachable_played [OF r6 pin_ply7] by simp
  have r8: "reachable (played [newMove 6 4 5 4, newMove 1 2 2 2, newMove 6 6 4 6, newMove 0 3 3 0, newMove 4 6 3 6, newMove 1 0 2 0, newMove 7 4 6 4, newMove 1 1 2 1])"
    using reachable_played [OF r7 pin_ply8] by simp
  have r9: "reachable (played [newMove 6 4 5 4, newMove 1 2 2 2, newMove 6 6 4 6, newMove 0 3 3 0, newMove 4 6 3 6, newMove 1 0 2 0, newMove 7 4 6 4, newMove 1 1 2 1, newMove 6 4 5 5])"
    using reachable_played [OF r8 pin_ply9] by simp
  have r10: "reachable (played [newMove 6 4 5 4, newMove 1 2 2 2, newMove 6 6 4 6, newMove 0 3 3 0, newMove 4 6 3 6, newMove 1 0 2 0, newMove 7 4 6 4, newMove 1 1 2 1, newMove 6 4 5 5, newMove 0 0 1 0])"
    using reachable_played [OF r9 pin_ply10] by simp
  have r11: "reachable (played [newMove 6 4 5 4, newMove 1 2 2 2, newMove 6 6 4 6, newMove 0 3 3 0, newMove 4 6 3 6, newMove 1 0 2 0, newMove 7 4 6 4, newMove 1 1 2 1, newMove 6 4 5 5, newMove 0 0 1 0, newMove 5 5 4 6])"
    using reachable_played [OF r10 pin_ply11] by simp
  have r12: "reachable (played [newMove 6 4 5 4, newMove 1 2 2 2, newMove 6 6 4 6, newMove 0 3 3 0, newMove 4 6 3 6, newMove 1 0 2 0, newMove 7 4 6 4, newMove 1 1 2 1, newMove 6 4 5 5, newMove 0 0 1 0, newMove 5 5 4 6, newMove 1 0 0 0])"
    using reachable_played [OF r11 pin_ply12] by simp
  have r13: "reachable (played [newMove 6 4 5 4, newMove 1 2 2 2, newMove 6 6 4 6, newMove 0 3 3 0, newMove 4 6 3 6, newMove 1 0 2 0, newMove 7 4 6 4, newMove 1 1 2 1, newMove 6 4 5 5, newMove 0 0 1 0, newMove 5 5 4 6, newMove 1 0 0 0, newMove 4 6 3 7])"
    using reachable_played [OF r12 pin_ply13] by simp
  have r14: "reachable (played [newMove 6 4 5 4, newMove 1 2 2 2, newMove 6 6 4 6, newMove 0 3 3 0, newMove 4 6 3 6, newMove 1 0 2 0, newMove 7 4 6 4, newMove 1 1 2 1, newMove 6 4 5 5, newMove 0 0 1 0, newMove 5 5 4 6, newMove 1 0 0 0, newMove 4 6 3 7, newMove 1 5 3 5])"
    using reachable_played [OF r13 pin_ply14] by simp
  then show ?thesis by (simp add: pinGame_def pinMoves_def)
qed

lemma pinGame_position:
  "board pinGame = fst (positionAfter pinMoves)" "enPassantCol pinGame = snd (positionAfter pinMoves)"
  "currentPlayer pinGame = WHITE"
  using played_position [of pinMoves] played_player [of pinMoves]
  by (simp_all add: pinGame_def) (simp add: pinMoves_def)

lemma pinGame_capture:
  "playMove pinGame ''g5f6'' = Some (Accepted, makeMove pinGame gxf6)"
proof -
  have "playMove (played pinMoves) ''g5f6'' = Some (Accepted, played (pinMoves @ [gxf6]))"
  proof (rule played_step [where u = "newMove 3 6 2 5" and c = WHITE])
    show "parseMove ''g5f6'' = Some (newMove 3 6 2 5)" by code_simp
    show "WHITE = (if even (length pinMoves) then WHITE else BLACK)" by (simp add: pinMoves_def)
    show "kingSquare (fst (positionAfter pinMoves)) WHITE \<noteq> None" by code_simp
    show "legalIn (positionAfter pinMoves) WHITE (newMove 3 6 2 5)" by code_simp
    show "firstIn (positionAfter pinMoves) WHITE (newMove 3 6 2 5) = gxf6" by code_simp
    show "kingSquare (moveBoard (fst (positionAfter pinMoves)) gxf6) (opponent WHITE) \<noteq> None"
      by code_simp
  qed
  then show ?thesis by (simp add: pinGame_def played_snoc)
qed

text \<open>
  Claim C1, evaluated on the code. In that game, which the command loop reaches, White
  is to move and not in check; \<open>getLegalMoves\<close> lists the en-passant capture g5 takes f6,
  because \<open>testMove\<close> probes it with the black pawn still on f5; the loop accepts
  \<open>g5f6\<close>; \<open>makeMove\<close> removes the pawn from f5, and White's king is attacked by the queen
  along the rank.
\<close>

theorem enPassant_capture_exposes_king:
  "reachable pinGame \<and> currentPlayer pinGame = WHITE \<and>
   isInCheck pinGame WHITE = Some False \<and>
   (\<exists>ms. getLegalMoves pinGame WHITE = Some (ms, pinGame) \<and> gxf6 \<in> set ms) \<and>
   isEnPassant gxf6 \<and>
   playMove pinGame ''g5f6'' = Some (Accepted, makeMove pinGame gxf6) \<and>
   isInCheck (makeMove pinGame gxf6) WHITE = Some True"
proof -
  have c0: "isInCheck pinGame WHITE = Some False"
    unfolding isInCheck_eq pinGame_position by code_simp
  have "kingSquare (board pinGame) WHITE \<noteq> None"
    unfolding pinGame_position by code_simp
  then obtain ms where l: "legalMoves pinGame WHITE = Some ms"
    using legalMoves_defined [of pinGame WHITE] by auto
  have la: "legalAt pinGame WHITE (3, 6) (2, 5)"
    unfolding legalAt_def pinGame_position by code_simp
  have em: "gxf6 \<in> set (emitMoves pinGame WHITE 3 6 2 5)"
    unfolding emitMoves_def taggedMove_def pinGame_position by code_simp
  have on: "(3, 6) \<in> set squares" "(2, 5) \<in> set squares" by code_simp+
  have mem: "gxf6 \<in> set ms"
    unfolding legalMoves_member [OF l]
    using la em on by (intro bexI [of _ "(3, 6)"] bexI [of _ "(2, 5)"]) simp_all
  have c1: "isInCheck (makeMove pinGame gxf6) WHITE = Some True"
    unfolding isInCheck_eq board_makeMove pinGame_position by code_simp
  have ep: "isEnPassant gxf6" by (simp add: gxf6_def)
  from pin_reachable pinGame_position(3) c0 l mem ep pinGame_capture c1 show ?thesis
    by (simp add: getLegalMoves_eq)
qed

section \<open>A promotion letter other than the queen's\<close>

lemma promo_ply1:
  "playMove (played []) ''h2h4'' = Some (Accepted, played ([] @ [newMove 6 7 4 7]))"
proof (rule played_step [where u = "newMove 6 7 4 7" and c = WHITE])
  show "parseMove ''h2h4'' = Some (newMove 6 7 4 7)" by code_simp
  show "WHITE = (if even (length []) then WHITE else BLACK)" by simp
  show "kingSquare (fst (positionAfter [])) WHITE \<noteq> None" by code_simp
  show "legalIn (positionAfter []) WHITE (newMove 6 7 4 7)" by code_simp
  show "firstIn (positionAfter []) WHITE (newMove 6 7 4 7) = newMove 6 7 4 7" by code_simp
  show "kingSquare (moveBoard (fst (positionAfter [])) (newMove 6 7 4 7)) (opponent WHITE) \<noteq> None"
    by code_simp
qed

lemma promo_ply2:
  "playMove (played [newMove 6 7 4 7]) ''g7g5'' = Some (Accepted, played ([newMove 6 7 4 7] @ [newMove 1 6 3 6]))"
proof (rule played_step [where u = "newMove 1 6 3 6" and c = BLACK])
  show "parseMove ''g7g5'' = Some (newMove 1 6 3 6)" by code_simp
  show "BLACK = (if even (length [newMove 6 7 4 7]) then WHITE else BLACK)" by simp
  show "kingSquare (fst (positionAfter [newMove 6 7 4 7])) BLACK \<noteq> None" by code_simp
  show "legalIn (positionAfter [newMove 6 7 4 7]) BLACK (newMove 1 6 3 6)" by code_simp
  show "firstIn (positionAfter [newMove 6 7 4 7]) BLACK (newMove 1 6 3 6) = newMove 1 6 3 6" by code_simp
  show "kingSquare (moveBoard (fst (positionAfter [newMove 6 7 4 7])) (newMove 1 6 3 6)) (opponent BLACK) \<noteq> None"
    by code_simp
qed

lemma promo_ply3:
  "playMove (played [newMove 6 7 4 7, newMove 1 6 3 6]) ''h4g5'' = Some (Accepted, played ([newMove 6 7 4 7, newMove 1 6 3 6] @ [newMove 4 7 3 6]))"
proof (rule played_step [where u = "newMove 4 7 3 6" and c = WHITE])
  show "parseMove ''h4g5'' = Some (newMove 4 7 3 6)" by code_simp
  show "WHITE = (if even (length [newMove 6 7 4 7, newMove 1 6 3 6]) then WHITE else BLACK)" by simp
  show "kingSquare (fst (positionAfter [newMove 6 7 4 7, newMove 1 6 3 6])) WHITE \<noteq> None" by code_simp
  show "legalIn (positionAfter [newMove 6 7 4 7, newMove 1 6 3 6]) WHITE (newMove 4 7 3 6)" by code_simp
  show "firstIn (positionAfter [newMove 6 7 4 7, newMove 1 6 3 6]) WHITE (newMove 4 7 3 6) = newMove 4 7 3 6" by code_simp
  show "kingSquare (moveBoard (fst (positionAfter [newMove 6 7 4 7, newMove 1 6 3 6])) (newMove 4 7 3 6)) (opponent WHITE) \<noteq> None"
    by code_simp
qed

lemma promo_ply4:
  "playMove (played [newMove 6 7 4 7, newMove 1 6 3 6, newMove 4 7 3 6]) ''h7h6'' = Some (Accepted, played ([newMove 6 7 4 7, newMove 1 6 3 6, newMove 4 7 3 6] @ [newMove 1 7 2 7]))"
proof (rule played_step [where u = "newMove 1 7 2 7" and c = BLACK])
  show "parseMove ''h7h6'' = Some (newMove 1 7 2 7)" by code_simp
  show "BLACK = (if even (length [newMove 6 7 4 7, newMove 1 6 3 6, newMove 4 7 3 6]) then WHITE else BLACK)" by simp
  show "kingSquare (fst (positionAfter [newMove 6 7 4 7, newMove 1 6 3 6, newMove 4 7 3 6])) BLACK \<noteq> None" by code_simp
  show "legalIn (positionAfter [newMove 6 7 4 7, newMove 1 6 3 6, newMove 4 7 3 6]) BLACK (newMove 1 7 2 7)" by code_simp
  show "firstIn (positionAfter [newMove 6 7 4 7, newMove 1 6 3 6, newMove 4 7 3 6]) BLACK (newMove 1 7 2 7) = newMove 1 7 2 7" by code_simp
  show "kingSquare (moveBoard (fst (positionAfter [newMove 6 7 4 7, newMove 1 6 3 6, newMove 4 7 3 6])) (newMove 1 7 2 7)) (opponent BLACK) \<noteq> None"
    by code_simp
qed

lemma promo_ply5:
  "playMove (played [newMove 6 7 4 7, newMove 1 6 3 6, newMove 4 7 3 6, newMove 1 7 2 7]) ''g5h6'' = Some (Accepted, played ([newMove 6 7 4 7, newMove 1 6 3 6, newMove 4 7 3 6, newMove 1 7 2 7] @ [newMove 3 6 2 7]))"
proof (rule played_step [where u = "newMove 3 6 2 7" and c = WHITE])
  show "parseMove ''g5h6'' = Some (newMove 3 6 2 7)" by code_simp
  show "WHITE = (if even (length [newMove 6 7 4 7, newMove 1 6 3 6, newMove 4 7 3 6, newMove 1 7 2 7]) then WHITE else BLACK)" by simp
  show "kingSquare (fst (positionAfter [newMove 6 7 4 7, newMove 1 6 3 6, newMove 4 7 3 6, newMove 1 7 2 7])) WHITE \<noteq> None" by code_simp
  show "legalIn (positionAfter [newMove 6 7 4 7, newMove 1 6 3 6, newMove 4 7 3 6, newMove 1 7 2 7]) WHITE (newMove 3 6 2 7)" by code_simp
  show "firstIn (positionAfter [newMove 6 7 4 7, newMove 1 6 3 6, newMove 4 7 3 6, newMove 1 7 2 7]) WHITE (newMove 3 6 2 7) = newMove 3 6 2 7" by code_simp
  show "kingSquare (moveBoard (fst (positionAfter [newMove 6 7 4 7, newMove 1 6 3 6, newMove 4 7 3 6, newMove 1 7 2 7])) (newMove 3 6 2 7)) (opponent WHITE) \<noteq> None"
    by code_simp
qed

lemma promo_ply6:
  "playMove (played [newMove 6 7 4 7, newMove 1 6 3 6, newMove 4 7 3 6, newMove 1 7 2 7, newMove 3 6 2 7]) ''a7a6'' = Some (Accepted, played ([newMove 6 7 4 7, newMove 1 6 3 6, newMove 4 7 3 6, newMove 1 7 2 7, newMove 3 6 2 7] @ [newMove 1 0 2 0]))"
proof (rule played_step [where u = "newMove 1 0 2 0" and c = BLACK])
  show "parseMove ''a7a6'' = Some (newMove 1 0 2 0)" by code_simp
  show "BLACK = (if even (length [newMove 6 7 4 7, newMove 1 6 3 6, newMove 4 7 3 6, newMove 1 7 2 7, newMove 3 6 2 7]) then WHITE else BLACK)" by simp
  show "kingSquare (fst (positionAfter [newMove 6 7 4 7, newMove 1 6 3 6, newMove 4 7 3 6, newMove 1 7 2 7, newMove 3 6 2 7])) BLACK \<noteq> None" by code_simp
  show "legalIn (positionAfter [newMove 6 7 4 7, newMove 1 6 3 6, newMove 4 7 3 6, newMove 1 7 2 7, newMove 3 6 2 7]) BLACK (newMove 1 0 2 0)" by code_simp
  show "firstIn (positionAfter [newMove 6 7 4 7, newMove 1 6 3 6, newMove 4 7 3 6, newMove 1 7 2 7, newMove 3 6 2 7]) BLACK (newMove 1 0 2 0) = newMove 1 0 2 0" by code_simp
  show "kingSquare (moveBoard (fst (positionAfter [newMove 6 7 4 7, newMove 1 6 3 6, newMove 4 7 3 6, newMove 1 7 2 7, newMove 3 6 2 7])) (newMove 1 0 2 0)) (opponent BLACK) \<noteq> None"
    by code_simp
qed

lemma promo_ply7:
  "playMove (played [newMove 6 7 4 7, newMove 1 6 3 6, newMove 4 7 3 6, newMove 1 7 2 7, newMove 3 6 2 7, newMove 1 0 2 0]) ''h6h7'' = Some (Accepted, played ([newMove 6 7 4 7, newMove 1 6 3 6, newMove 4 7 3 6, newMove 1 7 2 7, newMove 3 6 2 7, newMove 1 0 2 0] @ [newMove 2 7 1 7]))"
proof (rule played_step [where u = "newMove 2 7 1 7" and c = WHITE])
  show "parseMove ''h6h7'' = Some (newMove 2 7 1 7)" by code_simp
  show "WHITE = (if even (length [newMove 6 7 4 7, newMove 1 6 3 6, newMove 4 7 3 6, newMove 1 7 2 7, newMove 3 6 2 7, newMove 1 0 2 0]) then WHITE else BLACK)" by simp
  show "kingSquare (fst (positionAfter [newMove 6 7 4 7, newMove 1 6 3 6, newMove 4 7 3 6, newMove 1 7 2 7, newMove 3 6 2 7, newMove 1 0 2 0])) WHITE \<noteq> None" by code_simp
  show "legalIn (positionAfter [newMove 6 7 4 7, newMove 1 6 3 6, newMove 4 7 3 6, newMove 1 7 2 7, newMove 3 6 2 7, newMove 1 0 2 0]) WHITE (newMove 2 7 1 7)" by code_simp
  show "firstIn (positionAfter [newMove 6 7 4 7, newMove 1 6 3 6, newMove 4 7 3 6, newMove 1 7 2 7, newMove 3 6 2 7, newMove 1 0 2 0]) WHITE (newMove 2 7 1 7) = newMove 2 7 1 7" by code_simp
  show "kingSquare (moveBoard (fst (positionAfter [newMove 6 7 4 7, newMove 1 6 3 6, newMove 4 7 3 6, newMove 1 7 2 7, newMove 3 6 2 7, newMove 1 0 2 0])) (newMove 2 7 1 7)) (opponent WHITE) \<noteq> None"
    by code_simp
qed

lemma promo_ply8:
  "playMove (played [newMove 6 7 4 7, newMove 1 6 3 6, newMove 4 7 3 6, newMove 1 7 2 7, newMove 3 6 2 7, newMove 1 0 2 0, newMove 2 7 1 7]) ''a6a5'' = Some (Accepted, played ([newMove 6 7 4 7, newMove 1 6 3 6, newMove 4 7 3 6, newMove 1 7 2 7, newMove 3 6 2 7, newMove 1 0 2 0, newMove 2 7 1 7] @ [newMove 2 0 3 0]))"
proof (rule played_step [where u = "newMove 2 0 3 0" and c = BLACK])
  show "parseMove ''a6a5'' = Some (newMove 2 0 3 0)" by code_simp
  show "BLACK = (if even (length [newMove 6 7 4 7, newMove 1 6 3 6, newMove 4 7 3 6, newMove 1 7 2 7, newMove 3 6 2 7, newMove 1 0 2 0, newMove 2 7 1 7]) then WHITE else BLACK)" by simp
  show "kingSquare (fst (positionAfter [newMove 6 7 4 7, newMove 1 6 3 6, newMove 4 7 3 6, newMove 1 7 2 7, newMove 3 6 2 7, newMove 1 0 2 0, newMove 2 7 1 7])) BLACK \<noteq> None" by code_simp
  show "legalIn (positionAfter [newMove 6 7 4 7, newMove 1 6 3 6, newMove 4 7 3 6, newMove 1 7 2 7, newMove 3 6 2 7, newMove 1 0 2 0, newMove 2 7 1 7]) BLACK (newMove 2 0 3 0)" by code_simp
  show "firstIn (positionAfter [newMove 6 7 4 7, newMove 1 6 3 6, newMove 4 7 3 6, newMove 1 7 2 7, newMove 3 6 2 7, newMove 1 0 2 0, newMove 2 7 1 7]) BLACK (newMove 2 0 3 0) = newMove 2 0 3 0" by code_simp
  show "kingSquare (moveBoard (fst (positionAfter [newMove 6 7 4 7, newMove 1 6 3 6, newMove 4 7 3 6, newMove 1 7 2 7, newMove 3 6 2 7, newMove 1 0 2 0, newMove 2 7 1 7])) (newMove 2 0 3 0)) (opponent BLACK) \<noteq> None"
    by code_simp
qed

lemma promo_reachable: "reachable promoGame"
proof -
  have r0: "reachable (played [])" by (rule reachable_start)
  have r1: "reachable (played [newMove 6 7 4 7])"
    using reachable_played [OF r0 promo_ply1] by simp
  have r2: "reachable (played [newMove 6 7 4 7, newMove 1 6 3 6])"
    using reachable_played [OF r1 promo_ply2] by simp
  have r3: "reachable (played [newMove 6 7 4 7, newMove 1 6 3 6, newMove 4 7 3 6])"
    using reachable_played [OF r2 promo_ply3] by simp
  have r4: "reachable (played [newMove 6 7 4 7, newMove 1 6 3 6, newMove 4 7 3 6, newMove 1 7 2 7])"
    using reachable_played [OF r3 promo_ply4] by simp
  have r5: "reachable (played [newMove 6 7 4 7, newMove 1 6 3 6, newMove 4 7 3 6, newMove 1 7 2 7, newMove 3 6 2 7])"
    using reachable_played [OF r4 promo_ply5] by simp
  have r6: "reachable (played [newMove 6 7 4 7, newMove 1 6 3 6, newMove 4 7 3 6, newMove 1 7 2 7, newMove 3 6 2 7, newMove 1 0 2 0])"
    using reachable_played [OF r5 promo_ply6] by simp
  have r7: "reachable (played [newMove 6 7 4 7, newMove 1 6 3 6, newMove 4 7 3 6, newMove 1 7 2 7, newMove 3 6 2 7, newMove 1 0 2 0, newMove 2 7 1 7])"
    using reachable_played [OF r6 promo_ply7] by simp
  have r8: "reachable (played [newMove 6 7 4 7, newMove 1 6 3 6, newMove 4 7 3 6, newMove 1 7 2 7, newMove 3 6 2 7, newMove 1 0 2 0, newMove 2 7 1 7, newMove 2 0 3 0])"
    using reachable_played [OF r7 promo_ply8] by simp
  then show ?thesis by (simp add: promoGame_def promoMoves_def)
qed

lemma promoGame_position:
  "board promoGame = fst (positionAfter promoMoves)"
  "enPassantCol promoGame = snd (positionAfter promoMoves)"
  "currentPlayer promoGame = WHITE"
  using played_position [of promoMoves] played_player [of promoMoves]
  by (simp_all add: promoGame_def) (simp add: promoMoves_def)

lemma promoGame_capture:
  "playMove promoGame ''h7g8r'' = Some (Accepted, makeMove promoGame hxg8Q)"
proof -
  have "playMove (played promoMoves) ''h7g8r'' = Some (Accepted, played (promoMoves @ [hxg8Q]))"
  proof (rule played_step [where u = hxg8R and c = WHITE])
    show "parseMove ''h7g8r'' = Some hxg8R" by code_simp
    show "WHITE = (if even (length promoMoves) then WHITE else BLACK)" by (simp add: promoMoves_def)
    show "kingSquare (fst (positionAfter promoMoves)) WHITE \<noteq> None" by code_simp
    show "legalIn (positionAfter promoMoves) WHITE hxg8R" by code_simp
    show "firstIn (positionAfter promoMoves) WHITE hxg8R = hxg8Q" by code_simp
    show "kingSquare (moveBoard (fst (positionAfter promoMoves)) hxg8Q) (opponent WHITE) \<noteq> None"
      by code_simp
  qed
  then show ?thesis by (simp add: promoGame_def played_snoc)
qed

text \<open>
  Claim C6, evaluated on the code. \<open>h7g8r\<close> parses with promotion rook, and the rook
  promotion is in the list of legal moves, but the loop applies the first move with
  these squares, the queen promotion: a white queen stands on g8 afterwards.
\<close>

theorem promotion_letter_ignored:
  "reachable promoGame \<and>
   parseMove ''h7g8r'' = Some hxg8R \<and> promotion hxg8R = ROOK \<and>
   (\<exists>ms. getLegalMoves promoGame (currentPlayer promoGame) = Some (ms, promoGame) \<and>
         hxg8R \<in> set ms) \<and>
   playMove promoGame ''h7g8r'' = Some (Accepted, makeMove promoGame hxg8Q) \<and>
   type (board (makeMove promoGame hxg8Q) (0, 6)) = QUEEN \<and>
   color (board (makeMove promoGame hxg8Q) (0, 6)) = WHITE"
proof -
  have p: "parseMove ''h7g8r'' = Some hxg8R" by code_simp
  have "kingSquare (board promoGame) WHITE \<noteq> None"
    unfolding promoGame_position by code_simp
  then obtain ms where l: "legalMoves promoGame WHITE = Some ms"
    using legalMoves_defined [of promoGame WHITE] by auto
  have la: "legalAt promoGame WHITE (1, 7) (0, 6)"
    unfolding legalAt_def promoGame_position by code_simp
  have em: "hxg8R \<in> set (emitMoves promoGame WHITE 1 7 0 6)"
    unfolding emitMoves_def taggedMove_def promoGame_position by code_simp
  have on: "(1, 7) \<in> set squares" "(0, 6) \<in> set squares" by code_simp+
  have mem: "hxg8R \<in> set ms"
    unfolding legalMoves_member [OF l]
    using la em on by (intro bexI [of _ "(1, 7)"] bexI [of _ "(0, 6)"]) simp_all
  have q: "type (board (makeMove promoGame hxg8Q) (0, 6)) = QUEEN"
          "color (board (makeMove promoGame hxg8Q) (0, 6)) = WHITE"
    unfolding board_makeMove promoGame_position by code_simp+
  have r: "promotion hxg8R = ROOK" by (simp add: hxg8R_def)
  from promo_reachable p r l mem promoGame_capture q show ?thesis
    by (simp add: getLegalMoves_eq promoGame_position)
qed

end

